theory Spec2Isabelle
  imports Main
begin

section \<open>Text buffers\<close>

text \<open>
  A Python \<open>str\<close> is a sequence of Unicode code points; \<open>len\<close> counts code points.
  A buffer is therefore a list of code points (natural numbers), not of bytes.
\<close>

type_synonym ustr = "nat list"

text \<open>The character class \<open>[U+0B80-U+0BFF]\<close> of the scripts: the Tamil block.\<close>

definition is_tamil :: "nat \<Rightarrow> bool" where
  "is_tamil c = (2944 \<le> c \<and> c \<le> 3071)"

text \<open>
  \<open>str.isspace\<close>, the characters \<open>str.strip\<close> and \<open>str.rstrip\<close> remove and the class
  \<open>\s\<close> of \<open>re\<close> on a \<open>str\<close> pattern: U+0009..U+000D, U+001C..U+0020, U+0085, U+00A0,
  U+1680, U+2000..U+200A, U+2028, U+2029, U+202F, U+205F, U+3000.
\<close>

definition isspace :: "nat \<Rightarrow> bool" where
  "isspace c = ((9 \<le> c \<and> c \<le> 13) \<or> (28 \<le> c \<and> c \<le> 32) \<or> c = 133 \<or> c = 160 \<or> c = 5760
     \<or> (8192 \<le> c \<and> c \<le> 8202) \<or> c = 8232 \<or> c = 8233 \<or> c = 8239 \<or> c = 8287 \<or> c = 12288)"

text \<open>The class \<open>[A-Za-z]\<close>.\<close>

definition is_latin :: "nat \<Rightarrow> bool" where
  "is_latin c = ((65 \<le> c \<and> c \<le> 90) \<or> (97 \<le> c \<and> c \<le> 122))"

definition startswith :: "ustr \<Rightarrow> ustr \<Rightarrow> bool" where
  "startswith s p = (take (length p) s = p)"

definition rstrip :: "ustr \<Rightarrow> ustr" where
  "rstrip s = rev (dropWhile isspace (rev s))"

definition lstrip :: "ustr \<Rightarrow> ustr" where
  "lstrip s = dropWhile isspace s"

definition strip :: "ustr \<Rightarrow> ustr" where
  "strip s = lstrip (rstrip s)"

text \<open>\<open>text.split("\n")\<close>: always at least one line; U+000A is code point 10.\<close>

fun split_nl :: "ustr \<Rightarrow> ustr list" where
  "split_nl [] = [[]]"
| "split_nl (c # cs) =
     (if c = 10 then [] # split_nl cs
      else (case split_nl cs of [] \<Rightarrow> [[c]] | l # ls \<Rightarrow> (c # l) # ls))"

text \<open>\<open>"\n".join(lines)\<close>.\<close>

fun join_nl :: "ustr list \<Rightarrow> ustr" where
  "join_nl [] = []"
| "join_nl [l] = l"
| "join_nl (l # ls) = l @ 10 # join_nl ls"

section \<open>The regular expressions of the scripts\<close>

text \<open>
  A pattern piece looks at the text from the current position on and gives the number of
  code points it consumes there, or \<open>None\<close>. Repetitions are greedy. In every pattern of
  the scripts a repetition is followed by a class disjoint from the repeated one, by the
  end of the pattern, or (in \<open>\d+.*\<close>) by a last repetition that takes the rest of the line
  whatever the first one left, so the greedy choice gives the match of \<open>re\<close> and no
  backtracking is modelled.
\<close>

type_synonym piece = "ustr \<Rightarrow> nat option"

definition re_lit :: "ustr \<Rightarrow> piece" where
  "re_lit p s = (if startswith s p then Some (length p) else None)"

definition re_cls :: "(nat \<Rightarrow> bool) \<Rightarrow> piece" where
  "re_cls P s = (case s of [] \<Rightarrow> None | c # _ \<Rightarrow> if P c then Some 1 else None)"

definition re_star :: "(nat \<Rightarrow> bool) \<Rightarrow> piece" where
  "re_star P s = Some (length (takeWhile P s))"

definition re_opt :: "(nat \<Rightarrow> bool) \<Rightarrow> piece" where
  "re_opt P s = (case s of [] \<Rightarrow> Some 0 | c # _ \<Rightarrow> if P c then Some 1 else Some 0)"

text \<open>\<open>X{lo,hi}\<close>; \<open>X+\<close> and \<open>X{2,}\<close> have no upper bound.\<close>

definition re_rep :: "(nat \<Rightarrow> bool) \<Rightarrow> nat \<Rightarrow> nat option \<Rightarrow> piece" where
  "re_rep P lo hi s =
     (let n = length (takeWhile P s);
          k = (case hi of None \<Rightarrow> n | Some h \<Rightarrow> min h n)
      in if lo \<le> k then Some k else None)"

definition re_seq :: "piece \<Rightarrow> piece \<Rightarrow> piece" where
  "re_seq p q s =
     (case p s of None \<Rightarrow> None
      | Some n \<Rightarrow> (case q (drop n s) of None \<Rightarrow> None | Some k \<Rightarrow> Some (n + k)))"

text \<open>Lookahead \<open>(?=...)\<close> and \<open>(?!...)\<close>: a test on the rest of the text, consuming nothing.\<close>

definition re_ahead :: "(ustr \<Rightarrow> bool) \<Rightarrow> piece" where
  "re_ahead P s = (if P s then Some 0 else None)"

text \<open>
  A pattern also sees the code point before the current position (\<open>None\<close> at the start of
  the buffer): the lookbehinds \<open>(?<=...)\<close> and the anchor \<open>^\<close> test it.
\<close>

type_synonym matcher = "nat option \<Rightarrow> ustr \<Rightarrow> nat option"

definition anywhere :: "piece \<Rightarrow> matcher" where
  "anywhere p prev s = p s"

definition behind :: "(nat option \<Rightarrow> bool) \<Rightarrow> piece \<Rightarrow> matcher" where
  "behind P p prev s = (if P prev then p s else None)"

text \<open>
  \<open>re.sub(pattern, repl, text)\<close>: scan from the left; where the pattern matches, the
  match is replaced by \<open>repl\<close> of it and the scan goes on behind the match; elsewhere the
  code point is copied. Lookbehinds see the original text. No pattern of the scripts
  matches the empty string.
\<close>

function re_sub :: "matcher \<Rightarrow> (ustr \<Rightarrow> ustr) \<Rightarrow> nat option \<Rightarrow> ustr \<Rightarrow> ustr" where
  "re_sub m r prev [] = []"
| "re_sub m r prev (c # cs) =
     (case m prev (c # cs) of
        Some (Suc n) \<Rightarrow>
          r (take (Suc n) (c # cs)) @ re_sub m r (Some (last (take (Suc n) (c # cs)))) (drop n cs)
      | _ \<Rightarrow> c # re_sub m r (Some c) cs)"
  by pat_completeness auto
termination
  by (relation "measure (\<lambda>(m, r, prev, s). length s)") auto

text \<open>\<open>text.replace(old, new)\<close> for a non-empty \<open>old\<close>.\<close>

definition str_replace :: "ustr \<Rightarrow> ustr \<Rightarrow> ustr \<Rightarrow> ustr" where
  "str_replace old new text = re_sub (anywhere (re_lit old)) (\<lambda>_. new) None text"

section \<open>clean_text.py: the garbled-character repair engine\<close>

subsection \<open>PHASE 1: font-encoding garbled characters\<close>

text \<open>\<open>(?<=[U+0B80-U+0BFF])\<close>\<close>

definition after_tamil :: "nat option \<Rightarrow> bool" where
  "after_tamil prev = (case prev of None \<Rightarrow> False | Some c \<Rightarrow> is_tamil c)"

text \<open>\<open>(?=[U+0B80-U+0BFF])\<close> and \<open>(?=\s)\<close>\<close>

definition next_is :: "(nat \<Rightarrow> bool) \<Rightarrow> ustr \<Rightarrow> bool" where
  "next_is P s = (case s of [] \<Rightarrow> False | c # _ \<Rightarrow> P c)"

definition plus_between_tamil :: matcher where
  "plus_between_tamil = behind after_tamil (re_seq (re_lit [43]) (re_ahead (next_is is_tamil)))"

definition plus_before_space :: matcher where
  "plus_before_space = behind after_tamil (re_seq (re_lit [43]) (re_ahead (next_is isspace)))"

definition phase1 :: "ustr \<Rightarrow> ustr" where
  "phase1 text0 =
     (let text = str_replace [123] [3009] text0;
          text = str_replace [125] [3010] text;
          text = re_sub plus_between_tamil (\<lambda>_. [3010]) None text;
          text = re_sub plus_before_space (\<lambda>_. [3010]) None text;
          text = str_replace [165] [2954] text;
          text = str_replace [161] [2979, 3008] text;
          text = str_replace [187] [2999, 3007] text;
          text = str_replace [170] [2970, 3008] text;
          text = str_replace [229] [2991, 3010] text
      in text)"

subsection \<open>PHASE 2: control characters\<close>

definition phase2 :: "ustr \<Rightarrow> ustr" where
  "phase2 text0 =
     (let text = str_replace [148] [] text0;
          text = str_replace [146] [39] text;
          text = str_replace [145] [39] text;
          text = str_replace [132] [] text
      in text)"

subsection \<open>PHASE 3: quotation marks\<close>

definition phase3 :: "ustr \<Rightarrow> ustr" where
  "phase3 text0 =
     (let text = str_replace [8216] [39] text0;
          text = str_replace [8217] [39] text;
          text = str_replace [8220] [34] text;
          text = str_replace [8221] [34] text;
          text = str_replace [8222] [] text;
          text = str_replace [8224] [] text
      in text)"

subsection \<open>PHASE 4: punctuation\<close>

text \<open>\<open>\.\.(?!\.)\<close>: two periods not followed by a period.\<close>

definition double_period :: matcher where
  "double_period = anywhere (re_seq (re_lit [46, 46]) (re_ahead (\<lambda>s. \<not> next_is (\<lambda>c. c = 46) s)))"

definition phase4 :: "ustr \<Rightarrow> ustr" where
  "phase4 text0 =
     (let text = re_sub double_period (\<lambda>_. [46]) None text0;
          text = str_replace [46, 44] [46] text
      in text)"

subsection \<open>PHASE 5: line-level issues\<close>

text \<open>\<open>"  +"\<close>: two spaces and any further ones.\<close>

definition spaces2 :: matcher where
  "spaces2 = anywhere (re_seq (re_lit [32, 32]) (re_star (\<lambda>c. c = 32)))"

definition fix_line :: "ustr \<Rightarrow> ustr" where
  "fix_line line0 =
     (let line = rstrip line0
      in if strip line \<noteq> [] then re_sub spaces2 (\<lambda>_. [32]) None line else line)"

text \<open>The \<open>while i < len(lines)\<close> loop, appending to \<open>cleaned_lines\<close>.\<close>

fun line_loop :: "ustr list \<Rightarrow> ustr list \<Rightarrow> ustr list" where
  "line_loop [] cleaned_lines = cleaned_lines"
| "line_loop (line # lines) cleaned_lines = line_loop lines (cleaned_lines @ [fix_line line])"

definition phase5 :: "ustr \<Rightarrow> ustr" where
  "phase5 text = join_nl (line_loop (split_nl text) [])"

subsection \<open>PHASE 6: broken lines\<close>

text \<open>\<open>\n([U+0B80-U+0BFF])\n([U+0B80-U+0BFF])\<close>, replaced by \<open>"\n" + group(1) + group(2)\<close>.\<close>

definition orphan_line :: matcher where
  "orphan_line = anywhere (re_seq (re_lit [10]) (re_seq (re_cls is_tamil)
                   (re_seq (re_lit [10]) (re_cls is_tamil))))"

text \<open>\<open>\n U+0B89 \n([U+0B80-U+0BFF])\<close>, replaced by \<open>"\n U+0B89" + group(1)\<close>.\<close>

definition orphan_u :: matcher where
  "orphan_u = anywhere (re_seq (re_lit [10, 2953, 10]) (re_cls is_tamil))"

definition phase6 :: "ustr \<Rightarrow> ustr" where
  "phase6 text0 =
     (let text = re_sub orphan_line (\<lambda>m. [10, m ! 1, m ! 3]) None text0;
          text = re_sub orphan_u (\<lambda>m. [10, 2953, m ! 3]) None text
      in text)"

definition clean :: "ustr \<Rightarrow> ustr" where
  "clean text = phase6 (phase5 (phase4 (phase3 (phase2 (phase1 text)))))"

section \<open>clean4.py: residual-artifact cleanup\<close>

text \<open>\<open>p in s\<close> for strings: \<open>p\<close> occurs in \<open>s\<close>.\<close>

fun contains :: "ustr \<Rightarrow> ustr \<Rightarrow> bool" where
  "contains [] p = (p = [])"
| "contains (c # cs) p = (startswith (c # cs) p \<or> contains cs p)"

text \<open>The garbled page header of the PDF (50 code points, among them the Latin i, P, i, n).\<close>

definition garbled_header :: ustr where
  "garbled_header =
     [2985, 3009, 2991, 2994, 2991, 32, 2960, 2995, 2975, 2991, 2949, 105, 2953, 32,
      2950, 2984, 2985, 2991, 3016, 32, 45, 32, 80, 2984, 2970, 2994, 3016, 2991, 2990,
      2992, 2975, 2991, 2949, 32, 2954, 2996, 2997, 3014, 2991, 2953, 2997, 32, 58, 32,
      2985, 2986, 105, 110, 2991, 3018]"

definition step1 :: "ustr \<Rightarrow> ustr" where
  "step1 text =
     (let lines = split_nl text;
          lines = filter (\<lambda>l. \<not> contains l garbled_header) lines
      in join_nl lines)"

text \<open>\<open>(?=\s|[,.\'\"]|$)\<close>: white space, one of \<open>, . ' "\<close>, or the end of the buffer
  (a final newline is white space already).\<close>

definition word_boundary :: "ustr \<Rightarrow> bool" where
  "word_boundary s = (case s of [] \<Rightarrow> True
     | c # _ \<Rightarrow> isspace c \<or> c = 44 \<or> c = 46 \<or> c = 39 \<or> c = 34)"

text \<open>\<open>(?<=\s)\<close>, and \<open>^\<close> under \<open>re.MULTILINE\<close>.\<close>

definition after_space :: "nat option \<Rightarrow> bool" where
  "after_space prev = (case prev of None \<Rightarrow> False | Some c \<Rightarrow> isspace c)"

definition line_start :: "nat option \<Rightarrow> bool" where
  "line_start prev = (case prev of None \<Rightarrow> True | Some c \<Rightarrow> c = 10)"

definition step2 :: "ustr \<Rightarrow> ustr" where
  "step2 text0 =
     (let text = re_sub (anywhere (re_lit [2984, 3021, 104])) (\<lambda>_. [2984, 3006]) None text0;
          text = re_sub (anywhere (re_lit [2965, 3021, 104, 2995]))
                   (\<lambda>_. [2992, 3021, 2965, 2995]) None text;
          text = re_sub (anywhere (re_seq (re_lit [2992, 3021, 104]) (re_ahead word_boundary)))
                   (\<lambda>_. [2992, 3021]) None text;
          text = re_sub (behind after_space (re_seq (re_lit [104]) (re_ahead (next_is is_tamil))))
                   (\<lambda>_. [2984]) None text;
          text = re_sub (behind line_start (re_seq (re_lit [104]) (re_ahead (next_is is_tamil))))
                   (\<lambda>_. [2984]) None text;
          text = re_sub (behind after_tamil (re_lit [78])) (\<lambda>_. []) None text;
          text = re_sub (anywhere (re_seq (re_lit [110]) (re_ahead (next_is is_tamil))))
                   (\<lambda>_. []) None text;
          text = re_sub (behind after_tamil (re_lit [105])) (\<lambda>_. []) None text
      in text)"

text \<open>\<open>re.findall(pattern, text)\<close>: the matches from left to right, not overlapping.\<close>

function re_findall :: "matcher \<Rightarrow> nat option \<Rightarrow> ustr \<Rightarrow> ustr list" where
  "re_findall m prev [] = []"
| "re_findall m prev (c # cs) =
     (case m prev (c # cs) of
        Some (Suc n) \<Rightarrow>
          take (Suc n) (c # cs) # re_findall m (Some (last (take (Suc n) (c # cs)))) (drop n cs)
      | _ \<Rightarrow> re_findall m (Some c) cs)"
  by pat_completeness auto
termination
  by (relation "measure (\<lambda>(m, prev, s). length s)") auto

definition step3 :: "ustr \<Rightarrow> ustr" where
  "step3 text =
     (let remaining = re_findall (anywhere (re_cls is_latin)) None text
      in if remaining \<noteq> [] then re_sub (anywhere (re_cls is_latin)) (\<lambda>_. []) None text
         else text)"

definition step4 :: "ustr \<Rightarrow> ustr" where
  "step4 text0 =
     (let text = re_sub (anywhere (re_rep (\<lambda>c. c = 32) 2 None)) (\<lambda>_. [32]) None text0;
          lines = split_nl text;
          lines = map strip lines;
          lines = filter (\<lambda>l. l \<noteq> []) lines
      in join_nl lines)"

definition clean4 :: "ustr \<Rightarrow> ustr" where
  "clean4 text = step4 (step3 (step2 (step1 text)))"

section \<open>Segmentation: build_db.py and extract_hadith.py\<close>

text \<open>
  The class \<open>\d\<close> of \<open>re\<close> on a \<open>str\<close> pattern: the decimal digits of Unicode (category Nd,
  Unicode 14.0). Each block holds the ten digits 0..9 from its first code point on; the
  mathematical digits U+1D7CE..U+1D7FF are five such runs.
\<close>

definition nd_blocks :: "nat list" where
  "nd_blocks =
     [48, 1632, 1776, 1984, 2406, 2534, 2662, 2790, 2918, 3046, 3174, 3302, 3430, 3558,
      3664, 3792, 3872, 4160, 4240, 6112, 6160, 6470, 6608, 6784, 6800, 6992, 7088, 7232,
      7248, 42528, 43216, 43264, 43472, 43504, 43600, 44016, 65296, 66720, 68912, 69734,
      69872, 69942, 70096, 70384, 70736, 70864, 71248, 71360, 71472, 71904, 72016, 72784,
      73040, 73120, 92768, 92864, 93008, 120782, 120792, 120802, 120812, 120822, 123200,
      123632, 125264, 130032]"

definition isdecimal :: "nat \<Rightarrow> bool" where
  "isdecimal c = list_ex (\<lambda>lo. lo \<le> c \<and> c < lo + 10) nd_blocks"

definition digit_value :: "nat \<Rightarrow> nat" where
  "digit_value c = (case find (\<lambda>lo. lo \<le> c \<and> c < lo + 10) nd_blocks of
                      None \<Rightarrow> 0 | Some lo \<Rightarrow> c - lo)"

text \<open>\<open>int(s)\<close> for a string of decimal digits.\<close>

definition py_int :: "ustr \<Rightarrow> int" where
  "py_int s = foldl (\<lambda>a c. 10 * a + int (digit_value c)) 0 s"

text \<open>The keywords: the entry keyword (5 code points), the book keyword (5), the chapter
  keyword (10) and the title keyword (4).\<close>

definition kw_hadith :: ustr where
  "kw_hadith = [3001, 2980, 3008, 3000, 3021]"

definition kw_book :: ustr where
  "kw_book = [2986, 3006, 2965, 2990, 3021]"

definition kw_chapter :: ustr where
  "kw_chapter = [2949, 2980, 3021, 2980, 3007, 2991, 3006, 2991, 2990, 3021]"

definition kw_title :: ustr where
  "kw_title = [3000, 3001, 3008, 3001]"

text \<open>\<open>(kw_hadith\s*[:.]?\s*\d{1,5})\<close>\<close>

definition hadith_marker :: matcher where
  "hadith_marker = anywhere (re_seq (re_lit kw_hadith) (re_seq (re_star isspace)
     (re_seq (re_opt (\<lambda>c. c = 58 \<or> c = 46)) (re_seq (re_star isspace)
       (re_rep isdecimal 1 (Some 5))))))"

text \<open>\<open>kw_book\s*\d+\<close> and \<open>kw_chapter\s*\d+\<close>\<close>

definition book_marker :: matcher where
  "book_marker = anywhere (re_seq (re_lit kw_book) (re_seq (re_star isspace)
     (re_rep isdecimal 1 None)))"

definition chapter_marker :: matcher where
  "chapter_marker = anywhere (re_seq (re_lit kw_chapter) (re_seq (re_star isspace)
     (re_rep isdecimal 1 None)))"

text \<open>\<open>\d+\<close>\<close>

definition digits :: matcher where
  "digits = anywhere (re_rep isdecimal 1 None)"

text \<open>\<open>kw_title.*\<close> and \<open>kw_book\s*\d+.*\<close>; the dot matches everything but the newline.\<close>

definition title_line :: matcher where
  "title_line = anywhere (re_seq (re_lit kw_title) (re_star (\<lambda>c. c \<noteq> 10)))"

definition book_line :: matcher where
  "book_line = anywhere (re_seq (re_lit kw_book) (re_seq (re_star isspace)
     (re_seq (re_rep isdecimal 1 None) (re_star (\<lambda>c. c \<noteq> 10)))))"

text \<open>
  \<open>re.split(pattern, text)\<close> for a pattern that is one capturing group: the text between
  the matches and the matches themselves, alternating; \<open>cur\<close> is the text since the last
  match.
\<close>

function re_split :: "matcher \<Rightarrow> nat option \<Rightarrow> ustr \<Rightarrow> ustr \<Rightarrow> ustr list" where
  "re_split m prev cur [] = [cur]"
| "re_split m prev cur (c # cs) =
     (case m prev (c # cs) of
        Some (Suc n) \<Rightarrow>
          cur # take (Suc n) (c # cs)
            # re_split m (Some (last (take (Suc n) (c # cs)))) [] (drop n cs)
      | _ \<Rightarrow> re_split m (Some c) (cur @ [c]) cs)"
  by pat_completeness auto
termination
  by (relation "measure (\<lambda>(m, prev, cur, s). length s)") auto

text \<open>\<open>re.search(pattern, block)\<close>, as the \<open>group()\<close> of the leftmost match.\<close>

fun re_search :: "matcher \<Rightarrow> nat option \<Rightarrow> ustr \<Rightarrow> ustr option" where
  "re_search m prev [] = None"
| "re_search m prev (c # cs) =
     (case m prev (c # cs) of
        Some (Suc n) \<Rightarrow> Some (take (Suc n) (c # cs))
      | _ \<Rightarrow> re_search m (Some c) cs)"

text \<open>\<open>re.match(pattern, block)\<close> as a truth value: a match at the start.\<close>

definition re_match :: "matcher \<Rightarrow> ustr \<Rightarrow> bool" where
  "re_match m s = (case m None s of Some (Suc n) \<Rightarrow> True | _ \<Rightarrow> False)"

datatype error = IndexError

subsection \<open>build_db.py\<close>

text \<open>A row of the table \<open>hadiths\<close>, as given to \<open>INSERT\<close>; the column \<open>chapter\<close> is the
  field \<open>chapter_label\<close>.\<close>

record row =
  hadith_number :: ustr
  book :: ustr
  chapter_label :: ustr
  text_tamil :: ustr
  audio_path :: ustr

text \<open>The state of the loop: the two module-level labels and the rows inserted so far.\<close>

record seg_state =
  current_book :: ustr
  current_chapter :: ustr
  inserted :: "row list"

definition init_state :: seg_state where
  "init_state = \<lparr>current_book = [], current_chapter = [], inserted = []\<rparr>"

text \<open>The body of \<open>for i in range(len(parts))\<close>; both index errors of Python are results.\<close>

definition loop_body :: "ustr list \<Rightarrow> nat \<Rightarrow> seg_state \<Rightarrow> error + seg_state" where
  "loop_body parts i st0 =
     (let block = parts ! i;
          st = (case re_search book_marker None block of
                  Some g \<Rightarrow> st0\<lparr>current_book := g\<rparr> | None \<Rightarrow> st0);
          st = (case re_search chapter_marker None block of
                  Some g \<Rightarrow> st\<lparr>current_chapter := g\<rparr> | None \<Rightarrow> st)
      in if re_match (anywhere (re_lit kw_hadith)) block then
           (case re_findall digits None block of
              [] \<Rightarrow> Inl IndexError
            | num # _ \<Rightarrow>
                if i + 1 < length parts then
                  (let content = strip (parts ! (i + 1))
                   in if length content < 30 then Inr st
                      else Inr (st\<lparr>inserted := inserted st @
                             [\<lparr>hadith_number = num, book = current_book st,
                               chapter_label = current_chapter st, text_tamil = content,
                               audio_path = []\<rparr>]\<rparr>))
                else Inl IndexError)
         else Inr st)"

fun run_loop :: "ustr list \<Rightarrow> nat list \<Rightarrow> seg_state \<Rightarrow> error + seg_state" where
  "run_loop parts [] st = Inr st"
| "run_loop parts (i # is) st =
     (case loop_body parts i st of Inl e \<Rightarrow> Inl e | Inr st' \<Rightarrow> run_loop parts is st')"

definition build_db :: "ustr \<Rightarrow> error + row list" where
  "build_db text =
     (let parts = re_split hadith_marker None [] text
      in case run_loop parts [0..<length parts] init_state of
           Inl e \<Rightarrow> Inl e | Inr st \<Rightarrow> Inr (inserted st))"

subsection \<open>extract_hadith.py\<close>

text \<open>The body of \<open>for i in range(1, len(parts), 2)\<close>.\<close>

definition extract_body :: "ustr list \<Rightarrow> nat \<Rightarrow> (int \<times> ustr) list \<Rightarrow> error + (int \<times> ustr) list" where
  "extract_body parts i hadiths =
     (if i + 1 < length parts then
        (let num_part = parts ! i;
             content = parts ! (i + 1);
             num = re_findall digits None num_part
         in if num = [] then Inr hadiths
            else
              (let n = py_int (hd num);
                   content = re_sub title_line (\<lambda>_. []) None content;
                   content = re_sub book_line (\<lambda>_. []) None content;
                   content = strip content
               in if length content < 40 then Inr hadiths
                  else Inr (hadiths @ [(n, content)])))
      else Inl IndexError)"

fun extract_loop :: "ustr list \<Rightarrow> nat list \<Rightarrow> (int \<times> ustr) list \<Rightarrow> error + (int \<times> ustr) list" where
  "extract_loop parts [] hadiths = Inr hadiths"
| "extract_loop parts (i # is) hadiths =
     (case extract_body parts i hadiths of
        Inl e \<Rightarrow> Inl e | Inr hadiths' \<Rightarrow> extract_loop parts is hadiths')"

definition extract_hadith :: "ustr \<Rightarrow> error + (int \<times> ustr) list" where
  "extract_hadith text =
     (let parts = re_split hadith_marker None [] text
      in extract_loop parts (filter odd [1..<length parts]) [])"

section \<open>Notions used to state the properties\<close>



text \<open>The scan of \<open>re.sub\<close> finds no match of the pattern anywhere in the buffer.\<close>

fun no_match :: "matcher \<Rightarrow> nat option \<Rightarrow> ustr \<Rightarrow> bool" where
  "no_match m prev [] = True"
| "no_match m prev (c # cs) =
     ((case m prev (c # cs) of Some (Suc n) \<Rightarrow> False | _ \<Rightarrow> True) \<and> no_match m (Some c) cs)"

text \<open>
  An already-clean buffer: none of the tokens the repair engine replaces occurs in it. The
  literal tokens are those of the \<open>replace\<close> calls of PHASES 1 to 4, in the order of the
  script; the other conditions are the regular expressions of PHASES 1, 4 and 6 and, line by
  line, the trailing white space and the runs of spaces of PHASE 5.
\<close>

definition literal_tokens :: "ustr list" where
  "literal_tokens = [[123], [125], [165], [161], [187], [170], [229], [148], [146], [145],
     [132], [8216], [8217], [8220], [8221], [8222], [8224], [46, 44]]"

definition is_clean :: "ustr \<Rightarrow> bool" where
  "is_clean text =
     (list_all (\<lambda>old. no_match (anywhere (re_lit old)) None text) literal_tokens
      \<and> no_match plus_between_tamil None text
      \<and> no_match plus_before_space None text
      \<and> no_match double_period None text
      \<and> list_all (\<lambda>l. (l = [] \<or> \<not> isspace (last l)) \<and> no_match spaces2 None l) (split_nl text)
      \<and> no_match orphan_line None text
      \<and> no_match orphan_u None text)"

text \<open>
  The end-to-end scenario of the specification: three periods, a title line with the book
  marker (book keyword, space, 1), entry marker 5 with a body of 60 code points, entry
  marker 6 with a body of 6 code points.
\<close>

definition scenario_body :: ustr where
  "scenario_body =
     [2951, 2980, 3009, 32, 2962, 2992, 3009, 32, 2970, 3019, 2980, 2985, 3016, 32, 2997,
      3006, 2965, 3021, 2965, 3007, 2991, 2990, 3021, 32, 2951, 2992, 3009, 2986, 2980,
      3009, 32, 2958, 2996, 3009, 2980, 3021, 2980, 3009, 2965, 3021, 2965, 2995, 3009,
      2965, 3021, 2965, 3009, 32, 2990, 3015, 2994, 3021, 32, 2953, 2995, 3021, 2995, 2980,
      3009, 46]"

definition scenario_parts :: "ustr list" where
  "scenario_parts =
     [[46, 46, 46, 3000, 3001, 3008, 3001, 3021, 32, 2986, 3009, 3001, 3006, 2992, 3007, 32,
       2986, 3006, 2965, 2990, 3021, 32, 49, 10],
      [3001, 2980, 3008, 3000, 3021, 32, 58, 32, 53],
      10 # scenario_body @ [10],
      [3001, 2980, 3008, 3000, 3021, 32, 58, 32, 54],
      [10, 2970, 3007, 2993, 3007, 2991, 46]]"

definition scenario_text :: ustr where
  "scenario_text = concat scenario_parts"

text \<open>
  The label the loop of build_db.py holds after a list of spans: \<open>re.search\<close> gives the
  leftmost match of the marker pattern in a span, and the label is that match in the last
  span that has one; it is the empty string when no span has one. When one span holds
  several markers the label is the first of them, not the last.
\<close>

definition carried_label :: "matcher \<Rightarrow> ustr list \<Rightarrow> ustr" where
  "carried_label m blocks =
     (case List.map_filter (re_search m None) blocks of [] \<Rightarrow> [] | g # gs \<Rightarrow> last (g # gs))"

text \<open>
  The row that span \<open>i\<close> contributes to a run of build_db.py that does not raise: none
  unless the span starts with the entry keyword and the span after it, trimmed, has 30 code
  points or more; then one row with the first number of the span, the labels carried up to
  span \<open>i\<close> and the trimmed span after it.
\<close>

definition candidate_row :: "ustr list \<Rightarrow> nat \<Rightarrow> row list" where
  "candidate_row parts i =
     (if re_match (anywhere (re_lit kw_hadith)) (parts ! i) \<and> Suc i < length parts
         \<and> 30 \<le> length (strip (parts ! Suc i))
      then [\<lparr>hadith_number = hd (re_findall digits None (parts ! i)),
             book = carried_label book_marker (take (Suc i) parts),
             chapter_label = carried_label chapter_marker (take (Suc i) parts),
             text_tamil = strip (parts ! Suc i), audio_path = []\<rparr>]
      else [])"

text \<open>
  The body extract_hadith.py tests and stores: the span with both header patterns removed,
  then trimmed (lines 21 to 24 of the script). The entry that marker span \<open>i\<close> contributes:
  none unless that body has 40 code points or more.
\<close>

definition stripped_body :: "ustr \<Rightarrow> ustr" where
  "stripped_body content =
     strip (re_sub book_line (\<lambda>_. []) None (re_sub title_line (\<lambda>_. []) None content))"

definition extract_entry :: "ustr list \<Rightarrow> nat \<Rightarrow> (int \<times> ustr) list" where
  "extract_entry parts i =
     (if 40 \<le> length (stripped_body (parts ! Suc i))
      then [(py_int (hd (re_findall digits None (parts ! i))), stripped_body (parts ! Suc i))]
      else [])"

text \<open>
  The scan of \<open>re.sub\<close> finds no match that starts inside \<open>pre\<close> when \<open>pre\<close> is followed by
  \<open>rest\<close>.
\<close>

fun unmatched :: "matcher \<Rightarrow> nat option \<Rightarrow> ustr \<Rightarrow> ustr \<Rightarrow> bool" where
  "unmatched m prev [] rest = True"
| "unmatched m prev (c # cs) rest =
     ((case m prev (c # cs @ rest) of Some (Suc n) \<Rightarrow> False | _ \<Rightarrow> True)
      \<and> unmatched m (Some c) cs rest)"

text \<open>
  A buffer of book marker 1, chapter marker 2, entry marker 1 with a body of 32 code points
  and entry marker 2 with a body of 31 code points, each on a line of its own; and a buffer
  that starts with entry marker 7, before any book or chapter marker.
\<close>

definition carry_body1 :: ustr where
  "carry_body1 = [2949, 2990, 3021, 2990, 3006, 32, 2949, 2986, 3021, 2986, 3006, 32, 2949,
     2990, 3021, 2990, 3006, 32, 2949, 2986, 3021, 2986, 3006, 32, 2949, 2990, 3021, 2990,
     3006, 32, 2949, 46]"

definition carry_body2 :: ustr where
  "carry_body2 = [2949, 2986, 3021, 2986, 3006, 32, 2949, 2990, 3021, 2990, 3006, 32, 2949,
     2986, 3021, 2986, 3006, 32, 2949, 2990, 3021, 2990, 3006, 32, 2949, 2986, 3021, 2986,
     3006, 32, 46]"

definition carry_parts :: "ustr list" where
  "carry_parts =
     [[2986, 3006, 2965, 2990, 3021, 32, 49, 10,
       2949, 2980, 3021, 2980, 3007, 2991, 3006, 2991, 2990, 3021, 32, 50, 10],
      [3001, 2980, 3008, 3000, 3021, 32, 49],
      10 # carry_body1 @ [10],
      [3001, 2980, 3008, 3000, 3021, 32, 50],
      10 # carry_body2]"

definition carry_text :: ustr where
  "carry_text = concat carry_parts"

definition early_text :: ustr where
  "early_text = [3001, 2980, 3008, 3000, 3021, 32, 55, 10] @ carry_body1"

text \<open>
  The part of a line before the first occurrence of a keyword; the whole line when the
  keyword does not occur in it.
\<close>

fun cut_at :: "ustr \<Rightarrow> ustr \<Rightarrow> ustr" where
  "cut_at kw [] = []"
| "cut_at kw (c # cs) = (if startswith (c # cs) kw then [] else c # cut_at kw cs)"

text \<open>
  A buffer of entry marker 1 and a body of three lines: a line of 64 code points, a line
  that starts with the title keyword (the keyword, a space and \<open>x\<close>), and a line \<open>yz\<close>.
  \<open>leak_parts\<close> are its three spans.
\<close>

definition leak_line :: ustr where
  "leak_line = carry_body1 @ [32] @ carry_body2"

definition leak_parts :: "ustr list" where
  "leak_parts =
     [[], [3001, 2980, 3008, 3000, 3021, 32, 49],
      10 # leak_line @ [10, 3000, 3001, 3008, 3001, 32, 120, 10, 121, 122]]"

definition leak_text :: ustr where
  "leak_text = concat leak_parts"

text \<open>
  A buffer of entry marker 1 and a one-line body of 68 code points that starts with the
  title keyword; and a buffer that starts with the entry keyword without a number (the
  keyword, a space and \<open>x\<close>), followed by entry marker 1 with a body of 32 code points.
\<close>

definition titled_parts :: "ustr list" where
  "titled_parts =
     [[], [3001, 2980, 3008, 3000, 3021, 32, 49],
      [10, 3000, 3001, 3008, 3001, 32] @ carry_body1 @ carry_body2]"

definition titled_text :: ustr where
  "titled_text = concat titled_parts"

definition prose_text :: ustr where
  "prose_text = [3001, 2980, 3008, 3000, 3021, 32, 120, 10,
                 3001, 2980, 3008, 3000, 3021, 32, 49, 10] @ carry_body1"

text \<open>
  A buffer whose first span holds book marker 1 and then book marker 2, followed by entry
  marker 1 with a body of 32 code points.
\<close>

definition two_books_parts :: "ustr list" where
  "two_books_parts =
     [[2986, 3006, 2965, 2990, 3021, 32, 49, 10, 2986, 3006, 2965, 2990, 3021, 32, 50, 10],
      [3001, 2980, 3008, 3000, 3021, 32, 49],
      10 # carry_body1]"

definition two_books_text :: ustr where
  "two_books_text = concat two_books_parts"

section \<open>Unfolding the definitions for evaluation\<close>

lemmas re_defs = re_lit_def re_cls_def re_star_def re_opt_def re_rep_def re_seq_def re_ahead_def
  anywhere_def behind_def startswith_def str_replace_def next_is_def after_tamil_def

lemmas py_defs = rstrip_def lstrip_def strip_def isspace_def is_tamil_def is_latin_def

lemmas clean_defs = phase1_def phase2_def phase3_def phase4_def phase5_def phase6_def clean_def
  plus_between_tamil_def plus_before_space_def double_period_def spaces2_def fix_line_def
  orphan_line_def orphan_u_def

lemmas clean4_defs = step1_def step2_def step3_def step4_def clean4_def garbled_header_def
  word_boundary_def after_space_def line_start_def

lemmas seg_defs = kw_hadith_def kw_book_def kw_chapter_def kw_title_def hadith_marker_def
  book_marker_def chapter_marker_def digits_def title_line_def book_line_def re_match_def
  init_state_def loop_body_def build_db_def extract_body_def extract_hadith_def

section \<open>Facts about lines, stripping and substitution\<close>


lemma split_nl_nonempty: "split_nl s \<noteq> []"
  by (induction s) (auto split: list.splits)

lemma join_split_nl: "join_nl (split_nl s) = s"
proof (induction s)
  case Nil
  then show ?case by simp
next
  case (Cons c cs)
  show ?case
  proof (cases "split_nl cs")
    case Nil
    then show ?thesis using split_nl_nonempty[of cs] by simp
  next
    case (Cons l ls)
    with Cons.IH show ?thesis by (cases ls) auto
  qed
qed

lemma split_nl_no_newline: "10 \<notin> set l \<Longrightarrow> split_nl l = [l]"
  by (induction l) auto

lemma split_nl_append: "10 \<notin> set l \<Longrightarrow> split_nl (l @ 10 # s) = l # split_nl s"
  by (induction l) auto

lemma split_join_nl:
  "ls \<noteq> [] \<Longrightarrow> list_all (\<lambda>l. 10 \<notin> set l) ls \<Longrightarrow> split_nl (join_nl ls) = ls"
proof (induction ls rule: join_nl.induct)
  case 1
  then show ?case by simp
next
  case (2 l)
  then show ?case by (simp add: split_nl_no_newline)
next
  case (3 l v va)
  then show ?case by (simp add: split_nl_append)
qed

lemma split_nl_lines_no_newline: "list_all (\<lambda>l. 10 \<notin> set l) (split_nl s)"
proof (induction s)
  case Nil
  then show ?case by simp
next
  case (Cons c cs)
  then show ?case by (cases "split_nl cs") auto
qed

lemma line_loop_map: "line_loop ls acc = acc @ map fix_line ls"
  by (induction ls arbitrary: acc) auto

lemma set_rstrip: "set (rstrip l) \<subseteq> set l"
  unfolding rstrip_def using set_dropWhileD[of _ isspace "rev l"] by auto

lemma set_re_sub:
  "(\<And>x. set (r x) \<subseteq> A) \<Longrightarrow> set (re_sub m r prev s) \<subseteq> set s \<union> A"
proof (induction m r prev s rule: re_sub.induct)
  case (1 m r prev)
  then show ?case by simp
next
  case (2 m r prev c cs)
  show ?case
  proof (cases "m prev (c # cs)")
    case None
    with 2 show ?thesis by auto
  next
    case (Some k)
    show ?thesis
    proof (cases k)
      case 0
      with Some 2 show ?thesis by auto
    next
      case (Suc n)
      have "set (re_sub m r (Some (last (take (Suc n) (c # cs)))) (drop n cs)) \<subseteq> set (drop n cs) \<union> A"
        using 2 Some Suc by blast
      moreover have "set (drop n cs) \<subseteq> set cs" by (rule set_drop_subset)
      ultimately show ?thesis using Some Suc 2(4)[of "c # take n cs"] by auto
    qed
  qed
qed

lemma fix_line_no_newline: "10 \<notin> set l \<Longrightarrow> 10 \<notin> set (fix_line l)"
proof -
  assume a: "10 \<notin> set l"
  have r: "10 \<notin> set (rstrip l)" using a set_rstrip[of l] by auto
  have "set (re_sub spaces2 (\<lambda>_. [32]) None (rstrip l)) \<subseteq> set (rstrip l) \<union> {32}"
    by (rule set_re_sub) simp
  then have "10 \<notin> set (re_sub spaces2 (\<lambda>_. [32]) None (rstrip l))" using r by auto
  then show ?thesis using r by (simp add: fix_line_def Let_def)
qed

lemma phase5_lines: "split_nl (phase5 text) = map fix_line (split_nl text)"
proof -
  have "list_all (\<lambda>l. 10 \<notin> set l) (map fix_line (split_nl text))"
    using split_nl_lines_no_newline[of "text"] fix_line_no_newline
    by (simp add: list_all_iff)
  then show ?thesis
    unfolding phase5_def line_loop_map using split_nl_nonempty[of "text"]
    by (simp add: split_join_nl)
qed

lemma rstrip_no_trailing: "rstrip l = [] \<or> \<not> isspace (last (rstrip l))"
proof (cases "dropWhile isspace (rev l)")
  case Nil
  then show ?thesis by (simp add: rstrip_def)
next
  case (Cons a as)
  then have "\<not> isspace a" using hd_dropWhile[of isspace "rev l"] by auto
  with Cons show ?thesis by (simp add: rstrip_def)
qed

lemma rstrip_blank: "list_all isspace l \<Longrightarrow> rstrip l = []"
  by (simp add: rstrip_def list_all_iff)

lemma spaces2_match:
  "spaces2 prev s = Some k \<Longrightarrow> 2 \<le> k \<and> k \<le> length s \<and> list_all (\<lambda>c. c = 32) (take k s)"
proof -
  assume a: "spaces2 prev s = Some k"
  define t where "t = takeWhile (\<lambda>c. c = 32) (drop 2 s)"
  from a have st: "take 2 s = [32, 32]" and k: "k = 2 + length t"
    by (auto simp: spaces2_def anywhere_def re_seq_def re_lit_def re_star_def startswith_def
        t_def numeral_2_eq_2 split: if_splits)
  have l2: "2 \<le> length s" using st by (cases s; cases "tl s") auto
  have "take k s = take 2 s @ take (length t) (drop 2 s)"
    unfolding k by (rule take_add)
  also have "take (length t) (drop 2 s) = t"
    unfolding t_def by (rule takeWhile_eq_take[symmetric])
  finally have "list_all (\<lambda>c. c = 32) (take k s)"
    using st by (auto simp: list_all_iff t_def dest: set_takeWhileD)
  moreover have "k \<le> length s"
    using k l2 length_takeWhile_le[of "\<lambda>c. c = 32" "drop 2 s"] by (simp add: t_def)
  ultimately show ?thesis using k by simp
qed

lemma re_sub_spaces2_last:
  "s \<noteq> [] \<Longrightarrow> last s \<noteq> 32 \<Longrightarrow>
   re_sub spaces2 (\<lambda>_. [32]) prev s \<noteq> [] \<and> last (re_sub spaces2 (\<lambda>_. [32]) prev s) = last s"
proof (induction spaces2 "\<lambda>_::ustr. [32::nat]" prev s rule: re_sub.induct)
  case (1 prev)
  then show ?case by simp
next
  case (2 prev c cs)
  have lst: "last (c # cs) \<noteq> 32" using "2.prems" by blast
  show ?case
  proof (cases "spaces2 prev (c # cs)")
    case None
    then show ?thesis using 2 by (cases cs) auto
  next
    case (Some k)
    from spaces2_match[OF Some] obtain n where k: "k = Suc n" and n: "n \<le> length cs"
      and all: "list_all (\<lambda>c. c = 32) (take (Suc n) (c # cs))"
      by (cases k) auto
    have ne: "drop n cs \<noteq> []"
    proof
      assume "drop n cs = []"
      then have "take (Suc n) (c # cs) = c # cs" using n by simp
      then have "last (c # cs) = 32" using all
        by (metis (mono_tags, lifting) last_in_set list.distinct(1) list_all_iff)
      with lst show False by blast
    qed
    have "c # cs = (c # take n cs) @ drop n cs" by simp
    then have l: "last (c # cs) = last (drop n cs)" using ne by (metis last_appendR)
    have "re_sub spaces2 (\<lambda>_. [32]) (Some (last (take (Suc n) (c # cs)))) (drop n cs) \<noteq> [] \<and>
          last (re_sub spaces2 (\<lambda>_. [32]) (Some (last (take (Suc n) (c # cs)))) (drop n cs)) = last (drop n cs)"
      using "2.hyps"(3)[OF Some k] ne lst l by simp
    then show ?thesis using Some k l by simp
  qed
qed

lemma fix_line_no_trailing: "fix_line l = [] \<or> \<not> isspace (last (fix_line l))"
proof (cases "strip (rstrip l) \<noteq> []")
  case True
  have "strip [] = []" by (simp add: strip_def lstrip_def rstrip_def)
  with True have ne: "rstrip l \<noteq> []" by auto
  with rstrip_no_trailing[of l] have ns: "\<not> isspace (last (rstrip l))" by simp
  then have "last (rstrip l) \<noteq> 32" by (auto simp: isspace_def)
  from re_sub_spaces2_last[OF ne this, of None] ns True show ?thesis
    by (simp add: fix_line_def Let_def)
next
  case False
  then show ?thesis using rstrip_no_trailing[of l] by (simp add: fix_line_def Let_def)
qed

lemma fix_line_blank: "list_all isspace l \<Longrightarrow> fix_line l = []"
  by (simp add: fix_line_def Let_def rstrip_blank strip_def lstrip_def)

lemma set_split_nl: "\<Union>(set ` set (split_nl s)) \<subseteq> set s"
proof (induction s)
  case Nil
  then show ?case by simp
next
  case (Cons c cs)
  then show ?case by (cases "split_nl cs") (auto split: if_splits)
qed

lemma set_join_nl: "set (join_nl ls) \<subseteq> \<Union>(set ` set ls) \<union> {10}"
  by (induction ls rule: join_nl.induct) auto

lemma set_strip: "set (strip l) \<subseteq> set l"
  unfolding strip_def lstrip_def using set_rstrip[of l] set_dropWhileD[of _ isspace "rstrip l"] by blast

lemma re_sub_delete_class:
  "re_sub (anywhere (re_cls P)) (\<lambda>_. []) prev s = filter (\<lambda>c. \<not> P c) s"
  by (induction s arbitrary: prev) (auto simp: anywhere_def re_cls_def)

lemma re_findall_class_empty:
  "re_findall (anywhere (re_cls P)) prev s = [] \<longleftrightarrow> filter P s = []"
  by (induction s arbitrary: prev) (auto simp: anywhere_def re_cls_def)

lemma step3_no_latin: "filter is_latin (step3 text) = []"
  unfolding step3_def Let_def using re_findall_class_empty[of is_latin None "text"]
  by (auto simp: re_sub_delete_class filter_empty_conv)

lemma step4_set: "set (step4 text) \<subseteq> set text \<union> {10, 32}"
proof -
  let ?t = "re_sub (anywhere (re_rep (\<lambda>c. c = 32) 2 None)) (\<lambda>_. [32]) None text"
  have a: "set ?t \<subseteq> set text \<union> {32}" by (rule set_re_sub) simp
  have "set (step4 text) \<subseteq> \<Union>(set ` set (filter (\<lambda>l. l \<noteq> []) (map strip (split_nl ?t)))) \<union> {10}"
    unfolding step4_def Let_def by (rule set_join_nl)
  also have "\<dots> \<subseteq> \<Union>(set ` set (split_nl ?t)) \<union> {10}"
    using set_strip by auto
  also have "\<dots> \<subseteq> set ?t \<union> {10}" using set_split_nl[of ?t] by auto
  finally show ?thesis using a by auto
qed





section \<open>Facts about the spans of the split\<close>


lemma re_split_odd_length: "odd (length (re_split m prev cur s))"
  by (induction m prev cur s rule: re_split.induct) (auto split: option.splits nat.splits)

lemma re_split_odd_is_match:
  "odd i \<Longrightarrow> i < length (re_split m prev cur s) \<Longrightarrow>
   \<exists>prev' s' n. m prev' s' = Some (Suc n) \<and> re_split m prev cur s ! i = take (Suc n) s'"
proof (induction m prev cur s arbitrary: i rule: re_split.induct)
  case (1 m prev cur)
  then show ?case by (cases i) auto
next
  case (2 m prev cur c cs)
  show ?case
  proof (cases "m prev (c # cs)")
    case None
    then show ?thesis using 2 by simp
  next
    case (Some k)
    show ?thesis
    proof (cases k)
      case 0
      then show ?thesis using 2 Some by simp
    next
      case (Suc n)
      obtain j where i: "i = Suc j" using "2.prems"(1) by (cases i) auto
      show ?thesis
      proof (cases j)
        case 0
        have "\<exists>prev' s' n'. m prev' s' = Some (Suc n') \<and> take (Suc n) (c # cs) = take (Suc n') s'"
          using Some Suc by blast
        then show ?thesis using Some Suc i 0 by simp
      next
        case (Suc j')
        then have "odd j'" using "2.prems"(1) i by simp
        moreover have "j' < length (re_split m (Some (last (take (Suc n) (c # cs)))) [] (drop n cs))"
          using "2.prems"(2) Some \<open>k = Suc n\<close> i Suc by simp
        ultimately have "\<exists>prev' s' n'. m prev' s' = Some (Suc n') \<and>
            re_split m (Some (last (take (Suc n) (c # cs)))) [] (drop n cs) ! j' = take (Suc n') s'"
          using "2.IH"(3)[OF Some \<open>k = Suc n\<close>] by blast
        then show ?thesis using Some \<open>k = Suc n\<close> i Suc by simp
      qed
    qed
  qed
qed

lemma re_seq_Some:
  "re_seq p q s = Some k \<Longrightarrow> \<exists>n j. p s = Some n \<and> q (drop n s) = Some j \<and> k = n + j"
  by (auto simp: re_seq_def split: option.splits)

lemma re_rep_Some:
  "re_rep P lo hi s = Some k \<Longrightarrow> lo \<le> k \<and> k \<le> length (takeWhile P s)"
  by (auto simp: re_rep_def Let_def split: if_splits option.splits)

lemma takeWhile_nth_holds: "i < length (takeWhile P s) \<Longrightarrow> P (s ! i)"
  by (metis nth_mem set_takeWhileD takeWhile_nth)

lemma hadith_marker_Some:
  assumes "hadith_marker prev s = Some k"
  shows "startswith s kw_hadith \<and> 5 < k \<and> k \<le> length s \<and> isdecimal (s ! (k - 1))"
proof -
  from assms obtain n1 j1 where a: "re_lit kw_hadith s = Some n1"
    and b: "re_seq (re_star isspace) (re_seq (re_opt (\<lambda>c. c = 58 \<or> c = 46)) (re_seq (re_star isspace) (re_rep isdecimal 1 (Some 5)))) (drop n1 s) = Some j1"
    and k1: "k = n1 + j1"
    unfolding hadith_marker_def anywhere_def by (blast dest: re_seq_Some)
  from b obtain n2 j2 where "re_star isspace (drop n1 s) = Some n2"
    and c: "re_seq (re_opt (\<lambda>c. c = 58 \<or> c = 46)) (re_seq (re_star isspace) (re_rep isdecimal 1 (Some 5))) (drop n2 (drop n1 s)) = Some j2"
    and k2: "j1 = n2 + j2" by (blast dest: re_seq_Some)
  from c obtain n3 j3 where "re_opt (\<lambda>c. c = 58 \<or> c = 46) (drop n2 (drop n1 s)) = Some n3"
    and d: "re_seq (re_star isspace) (re_rep isdecimal 1 (Some 5)) (drop n3 (drop n2 (drop n1 s))) = Some j3"
    and k3: "j2 = n3 + j3" by (blast dest: re_seq_Some)
  from d obtain n4 j4 where "re_star isspace (drop n3 (drop n2 (drop n1 s))) = Some n4"
    and e: "re_rep isdecimal 1 (Some 5) (drop n4 (drop n3 (drop n2 (drop n1 s)))) = Some j4"
    and k4: "j3 = n4 + j4" by (blast dest: re_seq_Some)
  define off where "off = n1 + n2 + n3 + n4"
  have dr: "drop n4 (drop n3 (drop n2 (drop n1 s))) = drop off s" by (simp add: off_def add.commute add.left_commute)
  have sw: "startswith s kw_hadith" and n1: "n1 = 5"
    using a by (auto simp: re_lit_def kw_hadith_def split: if_splits)
  from re_rep_Some[OF e] have j4: "1 \<le> j4" "j4 \<le> length (takeWhile isdecimal (drop off s))"
    unfolding dr by auto
  have le: "length (takeWhile isdecimal (drop off s)) \<le> length s - off"
    using length_takeWhile_le[of isdecimal "drop off s"] by simp
  have k: "k = off + j4" using k1 k2 k3 k4 by (simp add: off_def)
  have "isdecimal (drop off s ! (j4 - 1))"
    using j4 takeWhile_nth_holds[of "j4 - 1" isdecimal "drop off s"] by simp
  moreover have "drop off s ! (j4 - 1) = s ! (k - 1)" using j4 le k by (simp add: add.commute)
  ultimately show ?thesis using sw n1 k j4 le by (simp add: off_def)
qed

lemma digits_Cons:
  "digits prev (c # cs) = (if isdecimal c then Some (Suc (length (takeWhile isdecimal cs))) else None)"
  by (simp add: digits_def anywhere_def re_rep_def)

lemma re_findall_digits_nonempty:
  "list_ex isdecimal p \<Longrightarrow> re_findall digits prev p \<noteq> []"
  by (induction p arbitrary: prev) (auto simp: digits_Cons)

lemma re_match_keyword: "re_match (anywhere (re_lit kw_hadith)) p = startswith p kw_hadith"
  by (simp add: re_match_def anywhere_def re_lit_def kw_hadith_def)

lemma marker_span:
  assumes "hadith_marker prev s = Some (Suc n)" and "p = take (Suc n) s"
  shows "startswith p kw_hadith \<and> re_findall digits None p \<noteq> []"
proof -
  note m = assms(1) and p = assms(2)
  from hadith_marker_Some[OF m] have sw: "startswith s kw_hadith" and n: "5 < Suc n" "Suc n \<le> length s"
    and d: "isdecimal (s ! n)" by simp_all
  have "startswith p kw_hadith" using sw n p
    by (simp add: startswith_def kw_hadith_def min_def)
  moreover have "p ! n = s ! n" "n < length p" using p n by simp_all
  then have "list_ex isdecimal p" using d nth_mem[of n p] by (auto simp: list_ex_iff)
  ultimately show ?thesis by (simp add: re_findall_digits_nonempty)
qed

lemma marker_part:
  assumes "parts = re_split hadith_marker None [] text" and "odd i" and "i < length parts"
  shows "Suc i < length parts \<and> startswith (parts ! i) kw_hadith
         \<and> re_findall digits None (parts ! i) \<noteq> []"
proof -
  have "odd (length parts)" unfolding assms(1) by (rule re_split_odd_length)
  then have "Suc i \<noteq> length parts" using assms(2) by (metis even_Suc)
  then have a: "Suc i < length parts" using assms(3) by simp
  obtain prev s n where "hadith_marker prev s = Some (Suc n)" and "parts ! i = take (Suc n) s"
    using re_split_odd_is_match[of i hadith_marker None "[]" "text"] assms by blast
  from marker_span[OF this] a show ?thesis by simp
qed

section \<open>The output of the two segmenters\<close>


lemma run_loop_append:
  "run_loop parts (is @ js) st =
     (case run_loop parts is st of Inl e \<Rightarrow> Inl e | Inr st' \<Rightarrow> run_loop parts js st')"
  by (induction "is" arbitrary: st) (auto split: sum.splits)

lemma carried_label_alt:
  "carried_label m bs = (let gs = List.map_filter (re_search m None) bs
                         in if gs = [] then [] else last gs)"
  by (simp add: carried_label_def Let_def split: list.splits)

lemma carried_label_snoc:
  "carried_label m (bs @ [b]) =
     (case re_search m None b of Some g \<Rightarrow> g | None \<Rightarrow> carried_label m bs)"
  by (simp add: carried_label_alt List.map_filter_def Let_def split: option.splits)

lemma carried_label_none:
  "list_all (\<lambda>b. re_search m None b = None) bs \<Longrightarrow> carried_label m bs = []"
  by (simp add: carried_label_def List.map_filter_def list_all_iff filter_empty_conv)

lemma loop_body_Inr:
  assumes "loop_body parts i st = Inr st'"
  shows "current_book st' = (case re_search book_marker None (parts ! i) of
            Some g \<Rightarrow> g | None \<Rightarrow> current_book st)
       \<and> current_chapter st' = (case re_search chapter_marker None (parts ! i) of
            Some g \<Rightarrow> g | None \<Rightarrow> current_chapter st)
       \<and> inserted st' = inserted st @
            (if re_match (anywhere (re_lit kw_hadith)) (parts ! i) \<and> Suc i < length parts
                \<and> 30 \<le> length (strip (parts ! Suc i))
             then [\<lparr>hadith_number = hd (re_findall digits None (parts ! i)),
                    book = current_book st', chapter_label = current_chapter st',
                    text_tamil = strip (parts ! Suc i), audio_path = []\<rparr>]
             else [])"
  using assms
  by (auto simp: loop_body_def Let_def split: option.splits list.splits if_splits)

lemma run_loop_state:
  "run_loop parts [0..<k] init_state = Inr st \<Longrightarrow> k \<le> length parts \<Longrightarrow>
   current_book st = carried_label book_marker (take k parts)
   \<and> current_chapter st = carried_label chapter_marker (take k parts)
   \<and> inserted st = concat (map (candidate_row parts) [0..<k])"
proof (induction k arbitrary: st)
  case 0
  then show ?case by (auto simp: init_state_def carried_label_def List.map_filter_def)
next
  case (Suc k)
  from Suc.prems(1) obtain st0 where r: "run_loop parts [0..<k] init_state = Inr st0"
    and b: "loop_body parts k st0 = Inr st"
    by (auto simp: run_loop_append split: sum.splits)
  have k: "k < length parts" using Suc.prems(2) by simp
  from Suc.IH[OF r] k have ih: "current_book st0 = carried_label book_marker (take k parts)"
    "current_chapter st0 = carried_label chapter_marker (take k parts)"
    "inserted st0 = concat (map (candidate_row parts) [0..<k])" by simp_all
  have l: "current_book st = carried_label book_marker (take (Suc k) parts)"
    "current_chapter st = carried_label chapter_marker (take (Suc k) parts)"
    using loop_body_Inr[OF b] ih
    by (simp_all add: take_Suc_conv_app_nth[OF k] carried_label_snoc split: option.splits)
  have "inserted st = inserted st0 @ candidate_row parts k"
    using loop_body_Inr[OF b] l by (simp add: candidate_row_def)
  then show ?case using l ih by simp
qed

lemma build_db_rows:
  assumes "parts = re_split hadith_marker None [] text" and "build_db text = Inr rows"
  shows "rows = concat (map (candidate_row parts) [0..<length parts])"
proof -
  from assms obtain st where r: "run_loop parts [0..<length parts] init_state = Inr st"
    and i: "rows = inserted st"
    by (auto simp: build_db_def Let_def split: sum.splits)
  from run_loop_state[OF r] i show ?thesis by simp
qed

lemma extract_body_marker:
  assumes "Suc i < length parts" and "re_findall digits None (parts ! i) \<noteq> []"
  shows "extract_body parts i hadiths = Inr (hadiths @ extract_entry parts i)"
  using assms by (simp add: extract_body_def extract_entry_def stripped_body_def Let_def)

lemma extract_loop_entries:
  "list_all (\<lambda>i. Suc i < length parts \<and> re_findall digits None (parts ! i) \<noteq> []) is \<Longrightarrow>
   extract_loop parts is hadiths = Inr (hadiths @ concat (map (extract_entry parts) is))"
  by (induction "is" arbitrary: hadiths) (simp_all add: extract_body_marker)

lemma extract_hadith_entries:
  assumes "parts = re_split hadith_marker None [] text"
  shows "extract_hadith text
         = Inr (concat (map (extract_entry parts) (filter odd [1..<length parts])))"
proof -
  have "list_all (\<lambda>i. Suc i < length parts \<and> re_findall digits None (parts ! i) \<noteq> [])
          (filter odd [1..<length parts])"
    using marker_part[OF assms] by (auto simp: list_all_iff)
  from extract_loop_entries[OF this, of "[]"] show ?thesis
    by (simp add: extract_hadith_def Let_def assms)
qed

lemma unmatched_re_sub:
  "unmatched m prev pre rest \<Longrightarrow>
   re_sub m r prev (pre @ rest)
     = pre @ re_sub m r (case pre of [] \<Rightarrow> prev | _ \<Rightarrow> Some (last pre)) rest"
proof (induction pre arbitrary: prev)
  case Nil
  then show ?case by simp
next
  case (Cons c cs)
  then have "re_sub m r prev ((c # cs) @ rest) = c # re_sub m r (Some c) (cs @ rest)"
    by (auto split: option.splits nat.splits)
  then show ?case using Cons by (cases cs) auto
qed

section \<open>Residual cleanup leaves no Latin letter\<close>

text \<open>
  C2. For every input buffer, the output of the residual-artifact cleanup (clean4.py, all
  four steps) holds no ASCII Latin letter: filtering it for \<open>[A-Za-z]\<close> gives nothing, and
  the verification scan of the script, \<open>re.findall('[A-Za-z]', ...)\<close>, finds no match.
\<close>

theorem C2_no_latin_left:
  "filter is_latin (clean4 text) = []
   \<and> re_findall (anywhere (re_cls is_latin)) None (clean4 text) = []"
proof -
  have "set (clean4 text) \<subseteq> set (step3 (step2 (step1 text))) \<union> {10, 32}"
    unfolding clean4_def by (rule step4_set)
  moreover have "\<forall>c \<in> set (step3 (step2 (step1 text))). \<not> is_latin c"
    using step3_no_latin[of "step2 (step1 text)"] by (simp add: filter_empty_conv)
  moreover have "\<not> is_latin 10" "\<not> is_latin 32" by (simp_all add: is_latin_def)
  ultimately have "filter is_latin (clean4 text) = []"
    by (auto simp: filter_empty_conv)
  then show ?thesis by (simp add: re_findall_class_empty)
qed

section \<open>The repair engine on clean and on repaired buffers\<close>


lemma re_sub_no_match: "no_match m prev s \<Longrightarrow> re_sub m r prev s = s"
  by (induction s arbitrary: prev) (auto split: option.splits nat.splits)

lemma str_replace_no_match:
  "no_match (anywhere (re_lit old)) None s \<Longrightarrow> str_replace old new s = s"
  by (simp add: str_replace_def re_sub_no_match)

lemma rstrip_id: "l = [] \<or> \<not> isspace (last l) \<Longrightarrow> rstrip l = l"
proof (cases "l = []")
  case True
  then show ?thesis by (simp add: rstrip_def)
next
  case False
  assume "l = [] \<or> \<not> isspace (last l)"
  with False have "\<not> isspace (hd (rev l))" by (simp add: hd_rev)
  moreover have "rev l \<noteq> []" using False by simp
  ultimately have "dropWhile isspace (rev l) = rev l" by (cases "rev l") auto
  then show ?thesis by (simp add: rstrip_def)
qed

lemma fix_line_id:
  "(l = [] \<or> \<not> isspace (last l)) \<and> no_match spaces2 None l \<Longrightarrow> fix_line l = l"
  by (simp add: fix_line_def Let_def rstrip_id re_sub_no_match)

lemma phase5_id:
  assumes "list_all (\<lambda>l. (l = [] \<or> \<not> isspace (last l)) \<and> no_match spaces2 None l) (split_nl s)"
  shows "phase5 s = s"
proof -
  have "map fix_line (split_nl s) = split_nl s"
    using assms fix_line_id by (simp add: list_all_iff map_idI)
  then show ?thesis by (simp add: phase5_def line_loop_map join_split_nl)
qed

text \<open>
  C1 (as amended). A buffer that is already clean, in which no token or pattern of the
  rules occurs, is left unchanged by \<open>clean\<close> (so \<open>clean\<close> is idempotent on it). Idempotence in
  general is not claimed: each rule makes one pass, and the rules run in a fixed order.
\<close>

theorem C1_amended: "is_clean text \<Longrightarrow> clean text = text"
proof -
  assume c: "is_clean text"
  then have lit: "\<And>old new. old \<in> set literal_tokens \<Longrightarrow> str_replace old new text = text"
    by (simp add: is_clean_def list_all_iff str_replace_no_match)
  have p1: "phase1 text = text"
    using c by (simp add: phase1_def Let_def lit literal_tokens_def is_clean_def re_sub_no_match)
  have p2: "phase2 text = text"
    by (simp add: phase2_def Let_def lit literal_tokens_def)
  have p3: "phase3 text = text"
    by (simp add: phase3_def Let_def lit literal_tokens_def)
  have p4: "phase4 text = text"
    using c by (simp add: phase4_def Let_def lit literal_tokens_def is_clean_def re_sub_no_match)
  have p5: "phase5 text = text"
    using c by (simp add: is_clean_def phase5_id)
  have p6: "phase6 text = text"
    using c by (simp add: phase6_def Let_def is_clean_def re_sub_no_match)
  show ?thesis by (simp add: clean_def p1 p2 p3 p4 p5 p6)
qed

text \<open>
  Two buffers on which a second run changes the result of the first. Period, comma, comma:
  the one pass of \<open>replace(".,", ".")\<close> leaves a period-comma behind, which the second run
  collapses. U+0B85, plus, yen: the plus rules run before the yen is turned into U+0B8A, so
  only the second run sees the plus between two Tamil code points.
\<close>

theorem C1_counterexample:
  "clean [46, 44, 44] = [46, 44] \<and> clean (clean [46, 44, 44]) = [46]
   \<and> clean [2949, 43, 165] = [2949, 43, 2954]
   \<and> clean (clean [2949, 43, 165]) = [2949, 3010, 2954]"
  by (simp add: re_defs py_defs clean_defs)

text \<open>The theorem at a four-line buffer of Tamil, Latin, a period, a plus sign and a blank line.\<close>

theorem C1_witness:
  "is_clean [2949, 2990, 3021, 2990, 3006, 46, 32, 43, 10, 10, 2949, 10, 97, 46]
   \<and> clean [2949, 2990, 3021, 2990, 3006, 46, 32, 43, 10, 10, 2949, 10, 97, 46]
      = [2949, 2990, 3021, 2990, 3006, 46, 32, 43, 10, 10, 2949, 10, 97, 46]"
proof -
  have h: "is_clean [2949, 2990, 3021, 2990, 3006, 46, 32, 43, 10, 10, 2949, 10, 97, 46]"
    by (simp add: is_clean_def literal_tokens_def re_defs py_defs clean_defs)
  show ?thesis using h C1_amended[OF h] by simp
qed

section \<open>The minimum-length filter\<close>

text \<open>
  C3 (as amended). Let \<open>parts\<close> be the spans of the split; the entry-marker spans are the
  ones at the odd indices. The standalone segmenter (extract_hadith.py) never raises, and
  the length it tests is that of the body after header stripping and trimming, not that of
  the trimmed span: its output is, in order, one entry for each marker span whose stripped
  body has 40 code points or more, so every entry of the output has such a body and every
  marker span with such a body has its entry in the output. For the persistence segmenter
  (build_db.py), whenever the run gives rows (it does not raise): every row has a trimmed
  body of 30 code points or more, and every marker span whose trimmed body has 30 code
  points or more (31 or more in particular) has a row with its number and that body.
\<close>

theorem C3_amended:
  assumes "parts = re_split hadith_marker None [] text"
  shows
   "extract_hadith text = Inr (concat (map (extract_entry parts) (filter odd [1..<length parts])))
    \<and> (extract_hadith text = Inr entries \<longrightarrow>
         list_all (\<lambda>e. 40 \<le> length (snd e)) entries
         \<and> (\<forall>i. odd i \<and> i < length parts \<and> 40 \<le> length (stripped_body (parts ! Suc i)) \<longrightarrow>
               (py_int (hd (re_findall digits None (parts ! i))), stripped_body (parts ! Suc i))
                 \<in> set entries))
    \<and> (build_db text = Inr rows \<longrightarrow>
         list_all (\<lambda>r. 30 \<le> length (text_tamil r)) rows
         \<and> (\<forall>i. odd i \<and> i < length parts \<and> 30 \<le> length (strip (parts ! Suc i)) \<longrightarrow>
               (\<exists>r \<in> set rows. hadith_number r = hd (re_findall digits None (parts ! i))
                    \<and> text_tamil r = strip (parts ! Suc i))))"
proof (intro conjI impI allI)
  show e: "extract_hadith text
        = Inr (concat (map (extract_entry parts) (filter odd [1..<length parts])))"
    by (rule extract_hadith_entries[OF assms])
  {
    assume "extract_hadith text = Inr entries"
    with e have en: "entries = concat (map (extract_entry parts) (filter odd [1..<length parts]))"
      by simp
    show "list_all (\<lambda>e. 40 \<le> length (snd e)) entries"
      unfolding en by (auto simp: list_all_iff extract_entry_def split: if_splits)
    fix i
    assume i: "odd i \<and> i < length parts \<and> 40 \<le> length (stripped_body (parts ! Suc i))"
    then have "i \<in> set (filter odd [1..<length parts])"
      by (cases i) auto
    moreover have "(py_int (hd (re_findall digits None (parts ! i))), stripped_body (parts ! Suc i))
          \<in> set (extract_entry parts i)"
      using i by (simp add: extract_entry_def)
    ultimately show "(py_int (hd (re_findall digits None (parts ! i))),
          stripped_body (parts ! Suc i)) \<in> set entries"
      unfolding en by auto
  }
  {
    assume "build_db text = Inr rows"
    from build_db_rows[OF assms this]
    have ro: "rows = concat (map (candidate_row parts) [0..<length parts])" .
    show "list_all (\<lambda>r. 30 \<le> length (text_tamil r)) rows"
      unfolding ro by (auto simp: list_all_iff candidate_row_def split: if_splits)
    fix i
    assume i: "odd i \<and> i < length parts \<and> 30 \<le> length (strip (parts ! Suc i))"
    from marker_part[OF assms] i have "Suc i < length parts"
      and "startswith (parts ! i) kw_hadith" by simp_all
    then have "candidate_row parts i =
        [\<lparr>hadith_number = hd (re_findall digits None (parts ! i)),
          book = carried_label book_marker (take (Suc i) parts),
          chapter_label = carried_label chapter_marker (take (Suc i) parts),
          text_tamil = strip (parts ! Suc i), audio_path = []\<rparr>]"
      using i by (simp add: candidate_row_def re_match_keyword)
    moreover have "i \<in> set [0..<length parts]" using i by simp
    ultimately have "\<lparr>hadith_number = hd (re_findall digits None (parts ! i)),
          book = carried_label book_marker (take (Suc i) parts),
          chapter_label = carried_label chapter_marker (take (Suc i) parts),
          text_tamil = strip (parts ! Suc i), audio_path = []\<rparr> \<in> set rows"
      unfolding ro by (auto intro!: bexI[of _ i])
    then show "\<exists>r \<in> set rows. hadith_number r = hd (re_findall digits None (parts ! i))
                    \<and> text_tamil r = strip (parts ! Suc i)"
      by (rule bexI[rotated]) simp
  }
qed


text \<open>
  Entry marker 1 with a one-line body of 68 code points that starts with the title keyword:
  the trimmed body is longer than 41 code points, yet the standalone segmenter has no
  entry, the header stripping leaves nothing. And a buffer that starts with the entry
  keyword without a number before entry marker 1 with a body of 32 code points: the
  persistence segmenter raises and stores no row.
\<close>

theorem C3_counterexample:
  "re_split hadith_marker None [] titled_text = titled_parts
   \<and> length (strip (titled_parts ! 2)) = 68
   \<and> extract_hadith titled_text = Inr []
   \<and> re_split hadith_marker None [] prose_text
       = [[3001, 2980, 3008, 3000, 3021, 32, 120, 10], [3001, 2980, 3008, 3000, 3021, 32, 49],
          10 # carry_body1]
   \<and> length (strip (10 # carry_body1)) = 32
   \<and> build_db prose_text = Inl IndexError"
proof -
  have p1: "re_split hadith_marker None [] titled_text = titled_parts"
    by (simp add: titled_text_def titled_parts_def carry_body1_def carry_body2_def seg_defs
        re_defs py_defs isdecimal_def nd_blocks_def)
  have l1: "length (strip (titled_parts ! 2)) = 68"
    by (simp add: titled_parts_def carry_body1_def carry_body2_def py_defs)
  have e1: "extract_loop titled_parts [1] [] = Inr []"
    by (simp add: titled_parts_def carry_body1_def carry_body2_def seg_defs
        re_defs py_defs isdecimal_def nd_blocks_def)
  have len: "length titled_parts = 3" by (simp add: titled_parts_def)
  have odds: "filter odd [1..<3] = [1]" by (simp add: upt_rec)
  have x1: "extract_hadith titled_text = Inr []"
    unfolding extract_hadith_def p1 Let_def len odds e1 by simp
  have p2: "re_split hadith_marker None [] prose_text
       = [[3001, 2980, 3008, 3000, 3021, 32, 120, 10], [3001, 2980, 3008, 3000, 3021, 32, 49],
          10 # carry_body1]"
    by (simp add: prose_text_def carry_body1_def seg_defs re_defs py_defs isdecimal_def
        nd_blocks_def)
  have l2: "length (strip (10 # carry_body1)) = 32"
    by (simp add: carry_body1_def py_defs)
  have b2: "build_db prose_text = Inl IndexError"
    unfolding build_db_def p2 Let_def
    by (simp add: upt_rec seg_defs re_defs py_defs isdecimal_def nd_blocks_def)
  show ?thesis using p1 l1 x1 p2 l2 b2 by (simp only: simp_thms)
qed

text \<open>
  The theorem at the end-to-end scenario of the specification: entry 5 (body of 60 code
  points) is the one entry of both segmenters; entry 6 (6 code points) is left out.
\<close>

theorem C3_witness:
  "extract_hadith scenario_text = Inr [(5, scenario_body)]
   \<and> build_db scenario_text =
     Inr [\<lparr>hadith_number = [53], book = [2986, 3006, 2965, 2990, 3021, 32, 49],
           chapter_label = [], text_tamil = scenario_body, audio_path = []\<rparr>]
   \<and> length (strip (scenario_parts ! 2)) = 60 \<and> length (strip (scenario_parts ! 4)) = 6
   \<and> (\<exists>r \<in> set [\<lparr>hadith_number = [53], book = [2986, 3006, 2965, 2990, 3021, 32, 49],
           chapter_label = [], text_tamil = scenario_body, audio_path = []\<rparr>].
         hadith_number r = hd (re_findall digits None (scenario_parts ! 1))
         \<and> text_tamil r = strip (scenario_parts ! 2))"
proof -
  define row5 where "row5 = \<lparr>hadith_number = [53], book = [2986, 3006, 2965, 2990, 3021, 32, 49],
           chapter_label = [], text_tamil = scenario_body, audio_path = []\<rparr>"
  have parts: "scenario_parts = re_split hadith_marker None [] scenario_text"
    by (simp add: scenario_text_def scenario_parts_def scenario_body_def seg_defs re_defs
        py_defs isdecimal_def nd_blocks_def)
  have len: "length scenario_parts = 5"
    by (simp add: scenario_parts_def)
  have b2: "length (strip (scenario_parts ! 2)) = 60"
    by (simp add: scenario_parts_def scenario_body_def py_defs)
  have b4: "length (strip (scenario_parts ! 4)) = 6"
    by (simp add: scenario_parts_def py_defs)
  have run: "run_loop scenario_parts [0, 1, 2, 3, 4] init_state =
     Inr \<lparr>current_book = [2986, 3006, 2965, 2990, 3021, 32, 49], current_chapter = [],
          inserted = [row5]\<rparr>"
    by (simp add: row5_def scenario_parts_def scenario_body_def seg_defs re_defs
        py_defs isdecimal_def nd_blocks_def)
  have upt: "[0..<5] = [0, 1, 2, 3, 4]" by (simp add: upt_rec)
  have bd: "build_db scenario_text = Inr [row5]"
    unfolding build_db_def parts[symmetric] Let_def len upt run by simp
  have odds: "filter odd [1..<5] = [1, 3]" by (simp add: upt_rec)
  have e1: "extract_entry scenario_parts 1 = [(5, scenario_body)]"
    by (simp add: extract_entry_def stripped_body_def scenario_parts_def scenario_body_def
        seg_defs re_defs py_defs isdecimal_def nd_blocks_def digit_value_def py_int_def)
  have e3: "extract_entry scenario_parts 3 = []"
    by (simp add: extract_entry_def stripped_body_def scenario_parts_def
        seg_defs re_defs py_defs)
  note c = C3_amended[OF parts, of "[(5, scenario_body)]" "[row5]"]
  from c[THEN conjunct1]
  have "extract_hadith scenario_text = Inr (concat (map (extract_entry scenario_parts) [1, 3]))"
    unfolding len odds .
  then have eh: "extract_hadith scenario_text = Inr [(5, scenario_body)]"
    by (simp only: list.map concat.simps e1 e3 append.simps)
  have i1: "odd (1::nat) \<and> 1 < length scenario_parts \<and> 30 \<le> length (strip (scenario_parts ! Suc 1))"
    using len b2 by (simp add: numeral_2_eq_2)
  from c[THEN conjunct2, THEN conjunct2, rule_format, OF bd, THEN conjunct2, rule_format, OF i1]
  have ex: "\<exists>r \<in> set [row5]. hadith_number r = hd (re_findall digits None (scenario_parts ! 1))
         \<and> text_tamil r = strip (scenario_parts ! 2)"
    by (simp add: numeral_2_eq_2)
  show ?thesis using eh bd b2 b4 ex unfolding row5_def by (simp only: simp_thms)
qed

section \<open>Book and chapter labels\<close>

text \<open>
  C4 (as amended). In the loop of build_db.py both labels start as the empty string. After
  the spans \<open>0..k-1\<close> have been processed, the book label is the leftmost match of the
  book-marker pattern (keyword, white space, number) in the last of these spans that has
  one, and the empty string when none has; when a span holds several book markers the label
  is the first of them, not the one seen last. Likewise for the chapter label. When the run
  gives rows, they are, in order, one row for each span that starts with the entry keyword
  and is followed by a trimmed span of 30 code points or more, and the row of span \<open>i\<close>
  carries the labels of the spans \<open>0..i\<close>. So a row stored before any book marker has the
  empty book label, and two entries that follow one book marker and one chapter marker
  carry the same book and chapter.
\<close>

theorem C4_amended:
  assumes "parts = re_split hadith_marker None [] text"
  shows
   "current_book init_state = [] \<and> current_chapter init_state = []
    \<and> (run_loop parts [0..<k] init_state = Inr st \<and> k \<le> length parts \<longrightarrow>
         current_book st = carried_label book_marker (take k parts)
         \<and> current_chapter st = carried_label chapter_marker (take k parts))
    \<and> (build_db text = Inr rows \<longrightarrow>
         rows = concat (map (candidate_row parts) [0..<length parts]))
    \<and> (list_all (\<lambda>b. re_search book_marker None b = None) (take (Suc i) parts) \<longrightarrow>
         carried_label book_marker (take (Suc i) parts) = [])
    \<and> (list_all (\<lambda>b. re_search chapter_marker None b = None) (take (Suc i) parts) \<longrightarrow>
         carried_label chapter_marker (take (Suc i) parts) = [])"
proof (intro conjI impI)
  show "current_book init_state = []" "current_chapter init_state = []"
    by (simp_all add: init_state_def)
next
  assume a: "run_loop parts [0..<k] init_state = Inr st \<and> k \<le> length parts"
  then have r: "run_loop parts [0..<k] init_state = Inr st" and k: "k \<le> length parts"
    by simp_all
  from run_loop_state[OF r k]
  show "current_book st = carried_label book_marker (take k parts)"
    and "current_chapter st = carried_label chapter_marker (take k parts)" by simp_all
next
  assume "build_db text = Inr rows"
  from build_db_rows[OF assms this]
  show "rows = concat (map (candidate_row parts) [0..<length parts])" .
next
  assume "list_all (\<lambda>b. re_search book_marker None b = None) (take (Suc i) parts)"
  then show "carried_label book_marker (take (Suc i) parts) = []" by (rule carried_label_none)
next
  assume "list_all (\<lambda>b. re_search chapter_marker None b = None) (take (Suc i) parts)"
  then show "carried_label chapter_marker (take (Suc i) parts) = []"
    by (rule carried_label_none)
qed

text \<open>
  A first span with book marker 1 and, on the next line, book marker 2, then entry 1: the
  row carries book marker 1, although book marker 2 was the one seen last.
\<close>

theorem C4_counterexample:
  "re_split hadith_marker None [] two_books_text = two_books_parts
   \<and> re_findall book_marker None (two_books_parts ! 0)
       = [[2986, 3006, 2965, 2990, 3021, 32, 49], [2986, 3006, 2965, 2990, 3021, 32, 50]]
   \<and> build_db two_books_text =
       Inr [\<lparr>hadith_number = [49], book = [2986, 3006, 2965, 2990, 3021, 32, 49],
             chapter_label = [], text_tamil = carry_body1, audio_path = []\<rparr>]"
proof -
  have p: "re_split hadith_marker None [] two_books_text = two_books_parts"
    by (simp add: two_books_text_def two_books_parts_def carry_body1_def seg_defs re_defs
        py_defs isdecimal_def nd_blocks_def)
  have f: "re_findall book_marker None (two_books_parts ! 0)
       = [[2986, 3006, 2965, 2990, 3021, 32, 49], [2986, 3006, 2965, 2990, 3021, 32, 50]]"
    by (simp add: two_books_parts_def seg_defs re_defs py_defs isdecimal_def nd_blocks_def)
  have len: "length two_books_parts = 3" by (simp add: two_books_parts_def)
  have upt: "[0..<3] = [0, 1, 2]" by (simp add: upt_rec)
  have run: "run_loop two_books_parts [0, 1, 2] init_state =
       Inr \<lparr>current_book = [2986, 3006, 2965, 2990, 3021, 32, 49], current_chapter = [],
            inserted = [\<lparr>hadith_number = [49], book = [2986, 3006, 2965, 2990, 3021, 32, 49],
             chapter_label = [], text_tamil = carry_body1, audio_path = []\<rparr>]\<rparr>"
    by (simp add: two_books_parts_def carry_body1_def seg_defs re_defs py_defs isdecimal_def
        nd_blocks_def)
  have b: "build_db two_books_text =
       Inr [\<lparr>hadith_number = [49], book = [2986, 3006, 2965, 2990, 3021, 32, 49],
             chapter_label = [], text_tamil = carry_body1, audio_path = []\<rparr>]"
    unfolding build_db_def p Let_def len upt run by simp
  show ?thesis using p f b by (simp only: simp_thms)
qed

text \<open>
  The theorem at the buffer book marker 1, chapter marker 2, entry 1, body, entry 2, body:
  both rows carry book marker 1 and chapter marker 2. On the buffer that starts with entry
  marker 7 the labels are empty and so are those of its row.
\<close>

theorem C4_witness:
  "build_db carry_text =
     Inr [\<lparr>hadith_number = [49], book = [2986, 3006, 2965, 2990, 3021, 32, 49],
           chapter_label = [2949, 2980, 3021, 2980, 3007, 2991, 3006, 2991, 2990, 3021, 32, 50],
           text_tamil = carry_body1, audio_path = []\<rparr>,
          \<lparr>hadith_number = [50], book = [2986, 3006, 2965, 2990, 3021, 32, 49],
           chapter_label = [2949, 2980, 3021, 2980, 3007, 2991, 3006, 2991, 2990, 3021, 32, 50],
           text_tamil = carry_body2, audio_path = []\<rparr>]
   \<and> concat (map (candidate_row carry_parts) [0..<length carry_parts]) =
         [\<lparr>hadith_number = [49], book = [2986, 3006, 2965, 2990, 3021, 32, 49],
           chapter_label = [2949, 2980, 3021, 2980, 3007, 2991, 3006, 2991, 2990, 3021, 32, 50],
           text_tamil = carry_body1, audio_path = []\<rparr>,
          \<lparr>hadith_number = [50], book = [2986, 3006, 2965, 2990, 3021, 32, 49],
           chapter_label = [2949, 2980, 3021, 2980, 3007, 2991, 3006, 2991, 2990, 3021, 32, 50],
           text_tamil = carry_body2, audio_path = []\<rparr>]
   \<and> carried_label book_marker (take 4 carry_parts) = [2986, 3006, 2965, 2990, 3021, 32, 49]
   \<and> carried_label chapter_marker (take 4 carry_parts)
       = [2949, 2980, 3021, 2980, 3007, 2991, 3006, 2991, 2990, 3021, 32, 50]
   \<and> build_db early_text =
     Inr [\<lparr>hadith_number = [55], book = [], chapter_label = [],
           text_tamil = carry_body1, audio_path = []\<rparr>]
   \<and> carried_label book_marker
         (take (Suc 1) [[], [3001, 2980, 3008, 3000, 3021, 32, 55], 10 # carry_body1]) = []
   \<and> carried_label chapter_marker
         (take (Suc 1) [[], [3001, 2980, 3008, 3000, 3021, 32, 55], 10 # carry_body1]) = []"
proof -
  define A :: ustr where "A = [2986, 3006, 2965, 2990, 3021, 32, 49]"
  define X :: ustr where "X = [2949, 2980, 3021, 2980, 3007, 2991, 3006, 2991, 2990, 3021, 32, 50]"
  define r1 where "r1 = \<lparr>hadith_number = [49], book = A, chapter_label = X,
    text_tamil = carry_body1, audio_path = []\<rparr>"
  define r2 where "r2 = \<lparr>hadith_number = [50], book = A, chapter_label = X,
    text_tamil = carry_body2, audio_path = []\<rparr>"
  have parts: "carry_parts = re_split hadith_marker None [] carry_text"
    by (simp add: carry_text_def carry_parts_def carry_body1_def carry_body2_def seg_defs
        re_defs py_defs isdecimal_def nd_blocks_def)
  have len: "length carry_parts = 5" by (simp add: carry_parts_def)
  have run4: "run_loop carry_parts [0..<4] init_state =
      Inr \<lparr>current_book = A, current_chapter = X, inserted = [r1, r2]\<rparr>"
    by (simp add: upt_rec A_def X_def r1_def r2_def carry_parts_def carry_body1_def
        carry_body2_def seg_defs re_defs py_defs isdecimal_def nd_blocks_def)
  have lb4: "loop_body carry_parts 4 \<lparr>current_book = A, current_chapter = X, inserted = [r1, r2]\<rparr> =
      Inr \<lparr>current_book = A, current_chapter = X, inserted = [r1, r2]\<rparr>"
    by (simp add: A_def X_def r1_def r2_def carry_parts_def carry_body1_def carry_body2_def
        seg_defs re_defs py_defs isdecimal_def nd_blocks_def)
  have "[0..<5] = [0..<4] @ [4]" by (simp add: upt_rec)
  then have "run_loop carry_parts [0..<length carry_parts] init_state =
      Inr \<lparr>current_book = A, current_chapter = X, inserted = [r1, r2]\<rparr>"
    unfolding len by (simp only: run_loop_append run4 sum.case run_loop.simps lb4)
  then have bd: "build_db carry_text = Inr [r1, r2]"
    by (simp add: build_db_def parts[symmetric])
  have pe: "[[], [3001, 2980, 3008, 3000, 3021, 32, 55], 10 # carry_body1]
      = re_split hadith_marker None [] early_text"
    by (simp add: early_text_def carry_body1_def seg_defs re_defs py_defs isdecimal_def
        nd_blocks_def)
  have noneb: "list_all (\<lambda>b. re_search book_marker None b = None)
      (take (Suc 1) [[], [3001, 2980, 3008, 3000, 3021, 32, 55], 10 # carry_body1])"
    by (simp add: seg_defs re_defs)
  have nonec: "list_all (\<lambda>b. re_search chapter_marker None b = None)
      (take (Suc 1) [[], [3001, 2980, 3008, 3000, 3021, 32, 55], 10 # carry_body1])"
    by (simp add: seg_defs re_defs)
  note ce = C4_amended[OF pe, of _ _ _ 1]
  note eb = ce[THEN conjunct2, THEN conjunct2, THEN conjunct2, THEN conjunct2, THEN conjunct1,
      rule_format, OF noneb]
  note ec = ce[THEN conjunct2, THEN conjunct2, THEN conjunct2, THEN conjunct2, THEN conjunct2,
      rule_format, OF nonec]
  have k4: "run_loop carry_parts [0..<4] init_state
        = Inr \<lparr>current_book = A, current_chapter = X, inserted = [r1, r2]\<rparr>
      \<and> 4 \<le> length carry_parts"
    using run4 len by simp
  note c = C4_amended[OF parts, of 4
      "\<lparr>current_book = A, current_chapter = X, inserted = [r1, r2]\<rparr>" "[r1, r2]"]
  from c[THEN conjunct2, THEN conjunct2, THEN conjunct1, rule_format, OF k4]
  have lab: "carried_label book_marker (take 4 carry_parts) = A"
    "carried_label chapter_marker (take 4 carry_parts) = X"
    by simp_all
  from c[THEN conjunct2, THEN conjunct2, THEN conjunct2, THEN conjunct1, rule_format, OF bd]
  have rows: "concat (map (candidate_row carry_parts) [0..<length carry_parts]) = [r1, r2]"
    by simp
  have early: "build_db early_text =
     Inr [\<lparr>hadith_number = [55], book = [], chapter_label = [],
           text_tamil = carry_body1, audio_path = []\<rparr>]"
    by (simp add: early_text_def carry_body1_def seg_defs re_defs py_defs isdecimal_def
        nd_blocks_def)
  show ?thesis using bd rows lab early eb ec unfolding r1_def r2_def A_def X_def
    by (simp only: simp_thms)
qed

section \<open>The span loop on a keyword without a number\<close>

text \<open>
  C5. The loop of build_db.py tests every span, also the text between the markers, for the
  entry keyword at its start, and then takes the first number of the span and the span
  after it without a check. A buffer that is just the entry keyword (five code points, no
  number) is one span: \<open>re.findall(...)[0]\<close> raises IndexError. The keyword followed by
  \<open>x1\<close> is one span too, with a number but with no span after it: \<open>parts[i+1]\<close> raises
  IndexError. The loop of extract_hadith.py visits the marker spans only and skips a span
  without a number; it returns the empty list on the first buffer.
\<close>

theorem C5_keyword_without_number_raises:
  "build_db [3001, 2980, 3008, 3000, 3021] = Inl IndexError
   \<and> build_db [3001, 2980, 3008, 3000, 3021, 120, 49] = Inl IndexError
   \<and> extract_hadith [3001, 2980, 3008, 3000, 3021] = Inr []"
  by (simp add: seg_defs re_defs py_defs isdecimal_def nd_blocks_def)

section \<open>Punctuation repair\<close>

text \<open>
  C6. The punctuation repair is meant to leave a three-period ellipsis alone and to
  collapse only a stray double period. On the buffer \<open>...\<close> (three periods, code point 46)
  the pattern \<open>\.\.(?!\.)\<close> does not match at the first period but does match at the
  second one, so the ellipsis comes out as two periods; an isolated double period and a
  period-comma are collapsed as described.
\<close>

theorem C6_ellipsis_is_shortened:
  "phase4 [46, 46, 46] = [46, 46] \<and> clean [46, 46, 46] = [46, 46]
   \<and> phase4 [97, 46, 46, 98] = [97, 46, 98] \<and> phase4 [97, 46, 44, 98] = [97, 46, 98]"
  by (simp add: re_defs py_defs clean_defs)

section \<open>The context of the plus sign\<close>













section \<open>Orphan-line join\<close>

text \<open>
  C8. A line that is one Tamil code point, followed by a line starting with a Tamil code
  point, is to be joined with that line. The pattern of PHASE 6 starts with a newline, so
  an orphan on the first line of the buffer has no match: the two-line buffer U+0B89,
  newline, U+0B89 U+0BB3 U+0BCD U+0BB3 U+0BA9 comes back unjoined. In the middle of a
  buffer (the example \<open>line1\<close>, orphan, word, \<open>line4\<close>) the join is made, and an orphan
  followed by a line that starts with a Latin letter is left alone.
\<close>

theorem C8_first_line_orphan_not_joined:
  "clean [2953, 10, 2953, 2995, 3021, 2995, 2985] = [2953, 10, 2953, 2995, 3021, 2995, 2985]
   \<and> clean [108, 105, 110, 101, 49, 10, 2953, 10, 2953, 2995, 3021, 2995, 2985, 10,
             108, 105, 110, 101, 52]
       = [108, 105, 110, 101, 49, 10, 2953, 2953, 2995, 3021, 2995, 2985, 10,
          108, 105, 110, 101, 52]
   \<and> clean [120, 10, 2953, 10, 97, 98] = [120, 10, 2953, 10, 97, 98]"
  by (simp add: re_defs py_defs clean_defs)

section \<open>Line-level repair keeps every line\<close>

text \<open>
  C9 (as amended). PHASE 5 of the repair engine keeps the number and the order of the lines:
  output line \<open>i\<close> is input line \<open>i\<close> with trailing white space removed and, when something
  is left, runs of two or more spaces collapsed. A line that held only white space is kept
  as an empty line, it is not removed. No output line ends in white space, so no output
  line consists of white space only.
\<close>

theorem C9_amended:
  "length (split_nl (phase5 text)) = length (split_nl text)
   \<and> (\<forall>i < length (split_nl text). split_nl (phase5 text) ! i = fix_line (split_nl text ! i))
   \<and> (\<forall>i < length (split_nl text). list_all isspace (split_nl text ! i)
         \<longrightarrow> split_nl (phase5 text) ! i = [])
   \<and> list_all (\<lambda>l. l = [] \<or> \<not> isspace (last l)) (split_nl (phase5 text))"
  using fix_line_no_trailing
  by (simp add: phase5_lines fix_line_blank list_all_iff)

text \<open>
  The buffer \<open>a\<close>, newline, space, tab, newline, \<open>b\<close>: the white-space line is still there
  after PHASE 5, and after the whole of \<open>clean\<close>, as an empty line between \<open>a\<close> and \<open>b\<close>.
\<close>

theorem C9_counterexample:
  "phase5 [97, 10, 32, 9, 10, 98] = [97, 10, 10, 98]
   \<and> split_nl (clean [97, 10, 32, 9, 10, 98]) = [[97], [], [98]]"
  by (simp add: re_defs py_defs clean_defs)

text \<open>The theorem at a three-line buffer whose second line is a space and a tab.\<close>

theorem C9_witness:
  "split_nl (phase5 [97, 32, 32, 98, 32, 10, 32, 9, 10, 98]) ! 1 = []
   \<and> split_nl (phase5 [97, 32, 32, 98, 32, 10, 32, 9, 10, 98]) = [[97, 32, 98], [], [98]]"
  using C9_amended[of "[97, 32, 32, 98, 32, 10, 32, 9, 10, 98]"]
  by (simp add: re_defs py_defs clean_defs)

section \<open>Header fragments inside an entry body\<close>

lemma re_sub_match:
  "s \<noteq> [] \<Longrightarrow> m prev s = Some (Suc n) \<Longrightarrow>
   re_sub m r prev s = r (take (Suc n) s) @ re_sub m r (Some (last (take (Suc n) s))) (drop (Suc n) s)"
  by (cases s) simp_all

lemma startswith_Cons:
  "startswith (c # cs) kw = (case kw of [] \<Rightarrow> True | k # ks \<Rightarrow> c = k \<and> startswith cs ks)"
  by (cases kw) (auto simp: startswith_def)

lemma startswith_Nil: "startswith [] kw = (kw = [])"
  by (auto simp: startswith_def)

lemma startswith_line:
  "10 \<notin> set kw \<Longrightarrow> 10 \<notin> set l \<Longrightarrow> startswith (l @ 10 # t) kw = startswith l kw"
proof (induction l arbitrary: kw)
  case Nil
  then show ?case by (cases kw) (auto simp: startswith_Cons startswith_Nil)
next
  case (Cons c l)
  then show ?case by (cases kw) (auto simp: startswith_Cons)
qed

lemma startswith_length: "startswith l kw \<Longrightarrow> length kw \<le> length l"
proof -
  assume "startswith l kw"
  then have "length (take (length kw) l) = length kw" by (simp add: startswith_def)
  then show ?thesis by simp
qed

lemma takeWhile_line:
  "10 \<notin> set l \<Longrightarrow> takeWhile (\<lambda>c. c \<noteq> 10) (l @ 10 # t) = l"
  by (induction l) auto

lemma takeWhile_line_end: "10 \<notin> set l \<Longrightarrow> takeWhile (\<lambda>c. c \<noteq> (10::nat)) l = l"
  by (induction l) auto

text \<open>A pattern \<open>kw.*\<close>: the keyword and the rest of its line.\<close>

lemma keyword_line_at:
  "anywhere (re_seq (re_lit kw) (re_star (\<lambda>c. c \<noteq> 10))) prev s =
     (if startswith s kw
      then Some (length kw + length (takeWhile (\<lambda>c. c \<noteq> 10) (drop (length kw) s)))
      else None)"
  by (simp add: anywhere_def re_seq_def re_lit_def re_star_def)

lemma keyword_line_match:
  assumes "startswith l kw" and "10 \<notin> set l"
  shows "anywhere (re_seq (re_lit kw) (re_star (\<lambda>c. c \<noteq> 10))) prev (l @ 10 # t) = Some (length l)"
    and "anywhere (re_seq (re_lit kw) (re_star (\<lambda>c. c \<noteq> 10))) prev l = Some (length l)"
proof -
  from startswith_length[OF assms(1)] have len: "length kw \<le> length l" .
  have d: "10 \<notin> set (drop (length kw) l)" using assms(2) by (meson in_set_dropD)
  have sw: "startswith (l @ 10 # t) kw"
    using assms(1) len by (simp add: startswith_def)
  have "drop (length kw) (l @ 10 # t) = drop (length kw) l @ 10 # t" using len by simp
  then have "takeWhile (\<lambda>c. c \<noteq> 10) (drop (length kw) (l @ 10 # t)) = drop (length kw) l"
    using d by (simp add: takeWhile_line)
  then show "anywhere (re_seq (re_lit kw) (re_star (\<lambda>c. c \<noteq> 10))) prev (l @ 10 # t) = Some (length l)"
    unfolding keyword_line_at using sw len by simp
  show "anywhere (re_seq (re_lit kw) (re_star (\<lambda>c. c \<noteq> 10))) prev l = Some (length l)"
    unfolding keyword_line_at using assms(1) len d by (simp add: takeWhile_line_end)
qed

lemma re_sub_keyword_line:
  assumes kw: "kw \<noteq> []" "10 \<notin> set kw"
  shows "10 \<notin> set l \<Longrightarrow>
     re_sub (anywhere (re_seq (re_lit kw) (re_star (\<lambda>c. c \<noteq> 10)))) (\<lambda>_. []) prev (l @ 10 # t)
       = cut_at kw l @ 10 # re_sub (anywhere (re_seq (re_lit kw) (re_star (\<lambda>c. c \<noteq> 10)))) (\<lambda>_. []) (Some 10) t"
    and "10 \<notin> set l \<Longrightarrow>
     re_sub (anywhere (re_seq (re_lit kw) (re_star (\<lambda>c. c \<noteq> 10)))) (\<lambda>_. []) prev l = cut_at kw l"
proof -
  define m where "m = anywhere (re_seq (re_lit kw) (re_star (\<lambda>c. c \<noteq> 10)))"
  have none: "\<And>prev t. m prev (10 # t) = None"
    unfolding m_def using kw by (cases kw) (auto simp: keyword_line_at startswith_Cons)
  have nl: "\<And>prev t. re_sub m (\<lambda>_. []) prev (10 # t) = 10 # re_sub m (\<lambda>_. []) (Some 10) t"
    by (simp add: none)
  show "10 \<notin> set l \<Longrightarrow>
     re_sub m (\<lambda>_. []) prev (l @ 10 # t) = cut_at kw l @ 10 # re_sub m (\<lambda>_. []) (Some 10) t"
  proof (induction l arbitrary: prev)
    case Nil
    then show ?case using nl by simp
  next
    case (Cons c l)
    show ?case
    proof (cases "startswith (c # l) kw")
      case True
      have mt: "m prev ((c # l) @ 10 # t) = Some (Suc (length l))"
        unfolding m_def using keyword_line_match(1)[OF True Cons.prems] by simp
      have "re_sub m (\<lambda>_. []) prev ((c # l) @ 10 # t) =
            [] @ re_sub m (\<lambda>_. []) (Some (last (take (Suc (length l)) ((c # l) @ 10 # t))))
                  (drop (Suc (length l)) ((c # l) @ 10 # t))"
        using re_sub_match[of "(c # l) @ 10 # t" m prev "length l" "\<lambda>_. []"] mt by simp
      also have "drop (Suc (length l)) ((c # l) @ 10 # t) = 10 # t" by simp
      finally show ?thesis using True nl by simp
    next
      case False
      then have "\<not> startswith ((c # l) @ 10 # t) kw"
        using startswith_line[OF kw(2) Cons.prems] by simp
      then have "m prev (c # l @ 10 # t) = None" by (simp add: m_def keyword_line_at)
      then show ?thesis using False Cons by simp
    qed
  qed
  show "10 \<notin> set l \<Longrightarrow> re_sub m (\<lambda>_. []) prev l = cut_at kw l"
  proof (induction l arbitrary: prev)
    case Nil
    then show ?case by simp
  next
    case (Cons c l)
    show ?case
    proof (cases "startswith (c # l) kw")
      case True
      have mt: "m prev (c # l) = Some (Suc (length l))"
        unfolding m_def using keyword_line_match(2)[OF True Cons.prems] by simp
      have "re_sub m (\<lambda>_. []) prev (c # l) =
            [] @ re_sub m (\<lambda>_. []) (Some (last (take (Suc (length l)) (c # l))))
                  (drop (Suc (length l)) (c # l))"
        using re_sub_match[of "c # l" m prev "length l" "\<lambda>_. []"] mt by simp
      then show ?thesis using True by simp
    next
      case False
      then have "m prev (c # l) = None" by (simp add: m_def keyword_line_at)
      then show ?thesis using False Cons by simp
    qed
  qed
qed

lemma re_sub_keyword_lines:
  assumes kw: "kw \<noteq> []" "10 \<notin> set kw"
  shows "ls \<noteq> [] \<Longrightarrow> list_all (\<lambda>l. 10 \<notin> set l) ls \<Longrightarrow>
     re_sub (anywhere (re_seq (re_lit kw) (re_star (\<lambda>c. c \<noteq> 10)))) (\<lambda>_. []) prev (join_nl ls)
       = join_nl (map (cut_at kw) ls)"
proof (induction ls arbitrary: prev rule: join_nl.induct)
  case 1
  then show ?case by simp
next
  case (2 l)
  then show ?case using re_sub_keyword_line(2)[OF kw] by simp
next
  case (3 l v va)
  then show ?case using re_sub_keyword_line(1)[OF kw] by simp
qed

lemma title_cut_lines:
  "re_sub title_line (\<lambda>_. []) None content = join_nl (map (cut_at kw_title) (split_nl content))"
proof -
  have "re_sub title_line (\<lambda>_. []) None (join_nl (split_nl content))
        = join_nl (map (cut_at kw_title) (split_nl content))"
    unfolding title_line_def
    by (rule re_sub_keyword_lines)
       (simp_all add: kw_title_def split_nl_nonempty split_nl_lines_no_newline)
  then show ?thesis by (simp add: join_split_nl)
qed


lemma isdecimal_range: "isdecimal c \<Longrightarrow> 48 \<le> c \<and> (c < 7258 \<or> 42528 \<le> c)"
  by (auto simp: isdecimal_def nd_blocks_def)

lemma isdecimal_not_space: "isdecimal c \<Longrightarrow> \<not> isspace c"
proof
  assume d: "isdecimal c" and s: "isspace c"
  have n: "\<not> isdecimal 133" "\<not> isdecimal 160" "\<not> isdecimal 5760"
    by (simp_all add: isdecimal_def nd_blocks_def)
  from s consider "c \<le> 32" | "c = 133" | "c = 160" | "c = 5760" | "8192 \<le> c \<and> c \<le> 12288"
    unfolding isspace_def by auto
  then show False
  proof cases
    case 1
    then show ?thesis using isdecimal_range[OF d] by simp
  next
    case 2
    then show ?thesis using d n by simp
  next
    case 3
    then show ?thesis using d n by simp
  next
    case 4
    then show ?thesis using d n by simp
  next
    case 5
    then show ?thesis using isdecimal_range[OF d] by simp
  qed
qed

lemma isdecimal_not_newline: "\<not> isdecimal 10"
  by (simp add: isdecimal_def nd_blocks_def)

lemma takeWhile_all: "list_all P xs \<Longrightarrow> takeWhile P (xs @ ys) = xs @ takeWhile P ys"
  by (induction xs) auto

lemma takeWhile_stop: "ys = [] \<or> \<not> P (hd ys) \<Longrightarrow> takeWhile P ys = []"
  by (cases ys) auto

lemma re_seq_SomeI:
  "p s = Some n \<Longrightarrow> q (drop n s) = Some k \<Longrightarrow> re_seq p q s = Some (n + k)"
  by (simp add: re_seq_def)

lemma book_line_match:
  assumes sp: "list_all isspace sp" and ds: "ds \<noteq> []" "list_all isdecimal ds"
    and line: "10 \<notin> set line" and tail: "tail = [] \<or> hd tail = 10"
  shows "book_line prev (kw_book @ sp @ ds @ line @ tail)
         = Some (length (kw_book @ sp @ ds @ line))"
proof -
  define d where "d = takeWhile isdecimal line"
  define e where "e = dropWhile isdecimal line"
  have line_de: "line = d @ e" by (simp add: d_def e_def)
  have e10: "10 \<notin> set e" using line line_de by auto
  have e_stop: "e @ tail = [] \<or> \<not> isdecimal (hd (e @ tail))"
  proof (cases e)
    case Nil
    then show ?thesis using tail isdecimal_not_newline by auto
  next
    case (Cons a as)
    then have "\<not> isdecimal a" using hd_dropWhile[of isdecimal line] by (simp add: e_def)
    then show ?thesis using Cons by simp
  qed
  have d_all: "list_all isdecimal (ds @ d)"
    using ds(2) by (auto simp: d_def list_all_iff dest: set_takeWhileD)
  have hd_ds: "\<not> isspace (hd (ds @ line @ tail))"
    using ds isdecimal_not_space[of "hd ds"] by (cases ds) auto
  have w: "takeWhile isspace (sp @ ds @ line @ tail) = sp"
    using takeWhile_all[OF sp, of "ds @ line @ tail"] takeWhile_stop[of "ds @ line @ tail" isspace]
      hd_ds by simp
  have "ds @ line @ tail = (ds @ d) @ (e @ tail)" by (simp add: line_de)
  then have n: "takeWhile isdecimal (ds @ line @ tail) = ds @ d"
    using takeWhile_all[OF d_all, of "e @ tail"] takeWhile_stop[of "e @ tail" isdecimal] e_stop
    by simp
  have dr: "drop (length (ds @ d)) (ds @ line @ tail) = e @ tail" by (simp add: line_de)
  have r: "takeWhile (\<lambda>c. c \<noteq> 10) (e @ tail) = e"
  proof (cases tail)
    case Nil
    then show ?thesis using e10 by (simp add: takeWhile_line_end)
  next
    case (Cons a as)
    then have "a = 10" using tail by simp
    then show ?thesis using Cons e10 by (simp add: takeWhile_line)
  qed
  have ll: "length line = length d + length e" by (simp add: d_def e_def flip: length_append)
  have a: "re_rep isdecimal 1 None (ds @ line @ tail) = Some (length (ds @ d))"
  proof -
    have l1: "1 \<le> length (ds @ d)" using ds(1) by (cases ds) simp_all
    show ?thesis unfolding re_rep_def Let_def n using l1 by simp
  qed
  have b: "re_star (\<lambda>c. c \<noteq> 10) (drop (length (ds @ d)) (ds @ line @ tail)) = Some (length e)"
    unfolding dr by (simp add: re_star_def r)
  have digs: "re_seq (re_rep isdecimal 1 None) (re_star (\<lambda>c. c \<noteq> 10)) (ds @ line @ tail)
              = Some (length ds + length line)"
    unfolding re_seq_def a option.case b by (simp add: ll)
  have st: "re_star isspace (sp @ ds @ line @ tail) = Some (length sp)"
    by (simp add: re_star_def w)
  have ws: "re_seq (re_star isspace) (re_seq (re_rep isdecimal 1 None) (re_star (\<lambda>c. c \<noteq> 10)))
              (sp @ ds @ line @ tail) = Some (length sp + (length ds + length line))"
    by (rule re_seq_SomeI[where n = "length sp"]) (use st digs in simp_all)
  have lit: "re_lit kw_book (kw_book @ sp @ ds @ line @ tail) = Some (length kw_book)"
    by (simp add: re_lit_def startswith_def)
  have "re_seq (re_lit kw_book) (re_seq (re_star isspace)
          (re_seq (re_rep isdecimal 1 None) (re_star (\<lambda>c. c \<noteq> 10))))
          (kw_book @ sp @ ds @ line @ tail)
        = Some (length kw_book + (length sp + (length ds + length line)))"
    by (rule re_seq_SomeI[where n = "length kw_book"]) (use lit ws in simp_all)
  then show ?thesis by (simp add: book_line_def anywhere_def)
qed

lemma book_cut_line:
  assumes "list_all isspace sp" and "ds \<noteq> []" and "list_all isdecimal ds"
    and "10 \<notin> set line" and "tail = [] \<or> hd tail = 10"
  shows "re_sub book_line (\<lambda>_. []) prev (kw_book @ sp @ ds @ line @ tail)
         = re_sub book_line (\<lambda>_. []) (Some (last (ds @ line))) tail"
proof -
  define n where "n = length (sp @ ds @ line) + 4"
  define s where "s = kw_book @ sp @ ds @ line @ tail"
  have len: "Suc n = length (kw_book @ sp @ ds @ line)" by (simp add: n_def kw_book_def)
  have m: "book_line prev s = Some (Suc n)"
    unfolding s_def len by (rule book_line_match[OF assms])
  have ne: "s \<noteq> []" by (simp add: s_def kw_book_def)
  have sp: "s = (kw_book @ sp @ ds @ line) @ tail" by (simp add: s_def)
  have t: "take (Suc n) s = kw_book @ sp @ ds @ line"
    unfolding len sp by simp
  have d: "drop (Suc n) s = tail"
    unfolding len sp by simp
  have l: "last (kw_book @ sp @ ds @ line) = last (ds @ line)" using assms(2) by simp
  have "re_sub book_line (\<lambda>_. []) prev s
        = [] @ re_sub book_line (\<lambda>_. []) (Some (last (take (Suc n) s))) (drop (Suc n) s)"
    using re_sub_match[of s book_line prev n "\<lambda>_. []"] ne m by blast
  then have "re_sub book_line (\<lambda>_. []) prev s
        = re_sub book_line (\<lambda>_. []) (Some (last (ds @ line))) tail"
    by (simp only: t d l append_Nil)
  then show ?thesis by (simp only: s_def)
qed


lemma book_cut_first:
  assumes "unmatched book_line prev pre (kw_book @ sp @ ds @ line @ tail)"
    and "list_all isspace sp" and "ds \<noteq> []" and "list_all isdecimal ds"
    and "10 \<notin> set line" and "tail = [] \<or> hd tail = 10"
  shows "re_sub book_line (\<lambda>_. []) prev (pre @ kw_book @ sp @ ds @ line @ tail)
         = pre @ re_sub book_line (\<lambda>_. []) (Some (last (ds @ line))) tail"
  unfolding unmatched_re_sub[OF assms(1)] book_cut_line[OF assms(2-6)] ..

lemma candidate_texts:
  "map text_tamil (concat (map (candidate_row parts) is))
   = map (\<lambda>i. strip (parts ! Suc i)) (filter (\<lambda>i. candidate_row parts i \<noteq> []) is)"
  by (induction "is") (simp_all add: candidate_row_def)

text \<open>
  C10 (as amended). In the standalone segmenter (extract_hadith.py) the body of an entry is
  cut line by line, not once. On every line, the text from the first occurrence of the
  title keyword (anywhere in the line, not only at its start) to the end of that line is
  removed, and the following lines are kept. Then the text is scanned from the left for the
  book-marker pattern (keyword, white space, number): at the first place where it matches,
  the marker and the rest of the line on which its number ends are removed, what stands
  before it is kept, and the scan goes on in the same way with the following lines. The
  entry of each marker span stores this result, trimmed. The persistence segmenter
  (build_db.py) makes no such cut: when it gives rows, their bodies are the trimmed spans
  as they are.
\<close>

theorem C10_amended:
  assumes "parts = re_split hadith_marker None [] text"
  shows
   "re_sub title_line (\<lambda>_. []) None content = join_nl (map (cut_at kw_title) (split_nl content))
    \<and> stripped_body content = strip (re_sub book_line (\<lambda>_. []) None
          (join_nl (map (cut_at kw_title) (split_nl content))))
    \<and> (unmatched book_line prev pre (kw_book @ sp @ ds @ line @ tail)
         \<and> list_all isspace sp \<and> ds \<noteq> [] \<and> list_all isdecimal ds \<and> 10 \<notin> set line
         \<and> (tail = [] \<or> hd tail = 10) \<longrightarrow>
         re_sub book_line (\<lambda>_. []) prev (pre @ kw_book @ sp @ ds @ line @ tail)
           = pre @ re_sub book_line (\<lambda>_. []) (Some (last (ds @ line))) tail)
    \<and> extract_hadith text
        = Inr (concat (map (extract_entry parts) (filter odd [1..<length parts])))
    \<and> (build_db text = Inr rows \<longrightarrow>
         map text_tamil rows = map (\<lambda>i. strip (parts ! Suc i))
           (filter (\<lambda>i. candidate_row parts i \<noteq> []) [0..<length parts]))"
proof (intro conjI impI)
  show t: "re_sub title_line (\<lambda>_. []) None content
        = join_nl (map (cut_at kw_title) (split_nl content))"
    by (rule title_cut_lines)
  show "stripped_body content = strip (re_sub book_line (\<lambda>_. []) None
          (join_nl (map (cut_at kw_title) (split_nl content))))"
    unfolding stripped_body_def t ..
next
  assume "unmatched book_line prev pre (kw_book @ sp @ ds @ line @ tail)
         \<and> list_all isspace sp \<and> ds \<noteq> [] \<and> list_all isdecimal ds \<and> 10 \<notin> set line
         \<and> (tail = [] \<or> hd tail = 10)"
  then show "re_sub book_line (\<lambda>_. []) prev (pre @ kw_book @ sp @ ds @ line @ tail)
           = pre @ re_sub book_line (\<lambda>_. []) (Some (last (ds @ line))) tail"
    by (elim conjE) (rule book_cut_first)
next
  show "extract_hadith text
        = Inr (concat (map (extract_entry parts) (filter odd [1..<length parts])))"
    by (rule extract_hadith_entries[OF assms])
next
  assume "build_db text = Inr rows"
  from build_db_rows[OF assms this]
  show "map text_tamil rows = map (\<lambda>i. strip (parts ! Suc i))
           (filter (\<lambda>i. candidate_row parts i \<noteq> []) [0..<length parts])"
    by (simp only: candidate_texts)
qed

text \<open>
  A body of three lines whose second line starts with the title keyword: the standalone
  segmenter empties that line but keeps the third line \<open>yz\<close>, and the persistence segmenter
  keeps all three lines.
\<close>

theorem C10_counterexample:
  "re_split hadith_marker None [] leak_text = leak_parts
   \<and> split_nl (strip (leak_parts ! 2))
       = [leak_line, [3000, 3001, 3008, 3001, 32, 120], [121, 122]]
   \<and> extract_hadith leak_text = Inr [(1, leak_line @ [10, 10, 121, 122])]
   \<and> build_db leak_text =
       Inr [\<lparr>hadith_number = [49], book = [], chapter_label = [],
             text_tamil = leak_line @ [10, 3000, 3001, 3008, 3001, 32, 120, 10, 121, 122],
             audio_path = []\<rparr>]"
proof -
  have parts: "re_split hadith_marker None [] leak_text = leak_parts"
    by (simp add: leak_text_def leak_parts_def leak_line_def carry_body1_def carry_body2_def
        seg_defs re_defs py_defs isdecimal_def nd_blocks_def)
  have lines: "split_nl (strip (leak_parts ! 2))
       = [leak_line, [3000, 3001, 3008, 3001, 32, 120], [121, 122]]"
    by (simp add: leak_parts_def leak_line_def carry_body1_def carry_body2_def py_defs)
  have len: "length leak_parts = 3" by (simp add: leak_parts_def)
  have ex: "extract_loop leak_parts [1] [] = Inr [(1, leak_line @ [10, 10, 121, 122])]"
    by (simp add: leak_parts_def leak_line_def carry_body1_def carry_body2_def seg_defs
        re_defs py_defs isdecimal_def nd_blocks_def digit_value_def py_int_def)
  have run: "run_loop leak_parts [0, 1, 2] init_state =
       Inr \<lparr>current_book = [], current_chapter = [],
            inserted = [\<lparr>hadith_number = [49], book = [], chapter_label = [],
             text_tamil = leak_line @ [10, 3000, 3001, 3008, 3001, 32, 120, 10, 121, 122],
             audio_path = []\<rparr>]\<rparr>"
    by (simp add: leak_parts_def leak_line_def carry_body1_def carry_body2_def seg_defs
        re_defs py_defs isdecimal_def nd_blocks_def)
  have odds: "filter odd [1..<3] = [1]" by (simp add: upt_rec)
  have upt: "[0..<3] = [0, 1, 2]" by (simp add: upt_rec)
  have eh: "extract_hadith leak_text = Inr [(1, leak_line @ [10, 10, 121, 122])]"
    unfolding extract_hadith_def parts Let_def len odds ex by simp
  have bd: "build_db leak_text =
       Inr [\<lparr>hadith_number = [49], book = [], chapter_label = [],
             text_tamil = leak_line @ [10, 3000, 3001, 3008, 3001, 32, 120, 10, 121, 122],
             audio_path = []\<rparr>]"
    unfolding build_db_def parts Let_def len upt run by simp
  show ?thesis using parts lines eh bd by (simp only: simp_thms)
qed


text \<open>
  The theorem at a three-line text with the title keyword on the first and the third line,
  at a book marker on the second line of a text whose number 12 stands on the third line,
  and at the buffer above.
\<close>

theorem C10_witness:
  "re_sub title_line (\<lambda>_. []) None [97, 32, 3000, 3001, 3008, 3001, 120, 10, 121, 10, 3000, 122]
     = [97, 32, 10, 121, 10, 3000, 122]
   \<and> unmatched book_line None [97, 10] (kw_book @ [32, 10] @ [49, 50] @ [32, 120] @ [10, 121])
   \<and> re_sub book_line (\<lambda>_. []) None
       ([97, 10] @ kw_book @ [32, 10] @ [49, 50] @ [32, 120] @ [10, 121]) = [97, 10, 10, 121]
   \<and> extract_hadith leak_text = Inr [(1, leak_line @ [10, 10, 121, 122])]
   \<and> build_db leak_text =
       Inr [\<lparr>hadith_number = [49], book = [], chapter_label = [],
             text_tamil = leak_line @ [10, 3000, 3001, 3008, 3001, 32, 120, 10, 121, 122],
             audio_path = []\<rparr>]
   \<and> [leak_line @ [10, 3000, 3001, 3008, 3001, 32, 120, 10, 121, 122]]
       = [strip (leak_parts ! Suc 1)]"
proof -
  define row1 where "row1 = \<lparr>hadith_number = [49], book = [], chapter_label = [],
             text_tamil = leak_line @ [10, 3000, 3001, 3008, 3001, 32, 120, 10, 121, 122],
             audio_path = []\<rparr>"
  have parts: "leak_parts = re_split hadith_marker None [] leak_text"
    by (simp add: leak_text_def leak_parts_def leak_line_def carry_body1_def carry_body2_def
        seg_defs re_defs py_defs isdecimal_def nd_blocks_def)
  have len: "length leak_parts = 3" by (simp add: leak_parts_def)
  have upt: "[0..<3] = [0, 1, 2]" by (simp add: upt_rec)
  have odds: "filter odd [1..<3] = [1]" by (simp add: upt_rec)
  have run: "run_loop leak_parts [0, 1, 2] init_state =
       Inr \<lparr>current_book = [], current_chapter = [], inserted = [row1]\<rparr>"
    by (simp add: row1_def leak_parts_def leak_line_def carry_body1_def carry_body2_def
        seg_defs re_defs py_defs isdecimal_def nd_blocks_def)
  have bd: "build_db leak_text = Inr [row1]"
    unfolding build_db_def parts[symmetric] Let_def len upt run by simp
  have h: "unmatched book_line None [97, 10] (kw_book @ [32, 10] @ [49, 50] @ [32, 120] @ [10, 121])
      \<and> list_all isspace [32, 10] \<and> [49, 50::nat] \<noteq> [] \<and> list_all isdecimal [49, 50]
      \<and> 10 \<notin> set [32, 120::nat] \<and> ([10, 121::nat] = [] \<or> hd [10, 121] = (10::nat))"
    by (simp add: seg_defs re_defs isspace_def isdecimal_def nd_blocks_def)
  have tail: "re_sub book_line (\<lambda>_. []) (Some (last ([49, 50] @ [32, 120]))) [10, 121] = [10, 121]"
    by (simp add: seg_defs re_defs)
  have cut: "join_nl (map (cut_at kw_title)
       (split_nl [97, 32, 3000, 3001, 3008, 3001, 120, 10, 121, 10, 3000, 122]))
       = [97, 32, 10, 121, 10, 3000, 122]"
    by (simp add: kw_title_def startswith_def)
  have e1: "extract_entry leak_parts 1 = [(1, leak_line @ [10, 10, 121, 122])]"
    by (simp add: extract_entry_def stripped_body_def leak_parts_def leak_line_def
        carry_body1_def carry_body2_def seg_defs re_defs py_defs isdecimal_def nd_blocks_def
        digit_value_def py_int_def)
  have cands: "filter (\<lambda>i. candidate_row leak_parts i \<noteq> []) [0, 1, 2] = [1]"
    by (simp add: candidate_row_def leak_parts_def leak_line_def carry_body1_def
        carry_body2_def seg_defs re_defs py_defs)
  note c = C10_amended[OF parts,
      of "[97, 32, 3000, 3001, 3008, 3001, 120, 10, 121, 10, 3000, 122]"
      None "[97, 10]" "[32, 10]" "[49, 50]" "[32, 120]" "[10, 121]" "[row1]"]
  from c[THEN conjunct1]
  have c1: "re_sub title_line (\<lambda>_. []) None
        [97, 32, 3000, 3001, 3008, 3001, 120, 10, 121, 10, 3000, 122]
      = [97, 32, 10, 121, 10, 3000, 122]"
    unfolding cut .
  note x3 = c[THEN conjunct2, THEN conjunct2, THEN conjunct1, rule_format, OF h]
  have c3: "re_sub book_line (\<lambda>_. []) None
       ([97, 10] @ kw_book @ [32, 10] @ [49, 50] @ [32, 120] @ [10, 121]) = [97, 10, 10, 121]"
    unfolding x3 tail by simp
  from c[THEN conjunct2, THEN conjunct2, THEN conjunct2, THEN conjunct1]
  have "extract_hadith leak_text = Inr (concat (map (extract_entry leak_parts) [1]))"
    unfolding len odds .
  then have c4: "extract_hadith leak_text = Inr [(1, leak_line @ [10, 10, 121, 122])]"
    by (simp only: list.map concat.simps e1 append.simps)
  from c[THEN conjunct2, THEN conjunct2, THEN conjunct2, THEN conjunct2, rule_format, OF bd]
  have "map text_tamil [row1] = map (\<lambda>i. strip (leak_parts ! Suc i)) [1]"
    unfolding len upt cands .
  then have c5: "[leak_line @ [10, 3000, 3001, 3008, 3001, 32, 120, 10, 121, 122]]
       = [strip (leak_parts ! Suc 1)]"
    by (simp add: row1_def)
  show ?thesis using c1 h[THEN conjunct1] c3 c4 bd c5 unfolding row1_def
    by (simp only: simp_thms)
qed

end
